theory Spec2Isabelle
  imports Complex_Main
begin

section \<open>Data model\<close>

text \<open>
  The force-directed character graph of \<^verbatim>\<open>CharacterGraph.tsx\<close> and the graph types of
  \<^verbatim>\<open>types/index.ts\<close>. In the component state (the model build, the camera transform, the
  event handlers) JavaScript numbers are modelled as real numbers: every operation is the
  exact one, there is no rounding, no infinity and no NaN. The simulation tick is written
  over an arbitrary number type with its arithmetic as a parameter, and is studied on the
  values of JavaScript numbers, NaN and the infinities included. Array indices are natural
  numbers. Fields carry a prefix where the source's name is a HOL constant or would
  capture a variable (\<open>id\<close>, \<open>size\<close>, \<open>x\<close>, \<open>y\<close>, ...).
\<close>

record GraphNode =
  node_id :: string
  node_size :: real
  node_role :: string
  node_description :: "string option"

record GraphLink =
  link_source :: string
  link_target :: string
  link_value :: real
  link_type :: string

record GraphData =
  gd_nodes :: "GraphNode list"
  gd_links :: "GraphLink list"

text \<open>
  \<^verbatim>\<open>interface ProcessedNode extends GraphNode\<close>: color, position and velocity. The type
  \<open>'n\<close> is the type of the numbers of the simulation, see below; the component state holds
  nodes and links over the reals.
\<close>

record 'n ProcessedNode = GraphNode +
  node_color :: string
  node_x :: 'n
  node_y :: 'n
  node_vx :: 'n
  node_vy :: 'n

record 'n ProcessedLink =
  pl_source :: nat
  pl_target :: nat
  pl_value :: 'n
  pl_type :: string

record ProcessedGraphData =
  pd_nodes :: "real ProcessedNode list"
  pd_links :: "real ProcessedLink list"

record Transform =
  scale :: real
  translateX :: real
  translateY :: real

section \<open>Building the model (the graphData effect)\<close>

text \<open>\<^verbatim>\<open>a || b\<close> on numbers and on strings: \<open>b\<close> replaces a falsy \<open>a\<close> (0, the empty string).\<close>

definition num_or :: "real \<Rightarrow> real \<Rightarrow> real" where
  "num_or a b = (if a = 0 then b else a)"

definition str_or :: "string \<Rightarrow> string \<Rightarrow> string" where
  "str_or a b = (if a = [] then b else a)"

text \<open>\<^verbatim>\<open>toLowerCase\<close>, on the ASCII letters.\<close>

definition lower_char :: "char \<Rightarrow> char" where
  "lower_char c =
     (let n = (of_char c :: nat) in if 65 \<le> n \<and> n \<le> 90 then char_of (n + 32) else c)"

definition toLowerCase :: "string \<Rightarrow> string" where
  "toLowerCase s = map lower_char s"

definition getNodeColor :: "string \<Rightarrow> string" where
  "getNodeColor r =
     (let l = toLowerCase r in
      if l = ''main'' then ''#ff6b6b''
      else if l = ''supporting'' then ''#4ecdc4''
      else if l = ''minor'' then ''#ffd166''
      else ''#6a89cc'')"

text \<open>
  \<^verbatim>\<open>graphData.nodes.map(...)\<close>. \<open>rnd k\<close> is what the \<open>k\<close>-th call of \<^verbatim>\<open>Math.random()\<close>
  of this build returns; the callback of node \<open>i\<close> makes calls \<open>2 i\<close> (for x) and
  \<open>2 i + 1\<close> (for y).
\<close>

definition place_node :: "(nat \<Rightarrow> real) \<Rightarrow> real \<Rightarrow> real \<Rightarrow> nat \<times> GraphNode \<Rightarrow> real ProcessedNode" where
  "place_node rnd width height p =
     (case p of (i, node) \<Rightarrow>
        GraphNode.extend node
          (ProcessedNode.fields
             (getNodeColor (node_role node))
             (width / 2 + (rnd (2 * i) - 0.5) * 200)
             (height / 2 + (rnd (2 * i + 1) - 0.5) * 200)
             0 0))"

definition build_nodes :: "(nat \<Rightarrow> real) \<Rightarrow> real \<Rightarrow> real \<Rightarrow> GraphNode list \<Rightarrow> real ProcessedNode list" where
  "build_nodes rnd width height gns = map (place_node rnd width height) (enumerate 0 gns)"

text \<open>\<^verbatim>\<open>nodes.forEach((node, index) => nodeIndices.set(node.id, index))\<close>: a later node
  with the same id overwrites the entry.\<close>

definition build_nodeIndices :: "real ProcessedNode list \<Rightarrow> (string \<rightharpoonup> nat)" where
  "build_nodeIndices nodes =
     fold (\<lambda>p m. case p of (index, node) \<Rightarrow> m(node_id node \<mapsto> index)) (enumerate 0 nodes) Map.empty"

text \<open>The callback of \<^verbatim>\<open>graphData.links.map\<close>: \<open>None\<close> is the source's \<^verbatim>\<open>null\<close>.\<close>

definition resolve_link :: "(string \<rightharpoonup> nat) \<Rightarrow> GraphLink \<Rightarrow> real ProcessedLink option" where
  "resolve_link nodeIndices link =
     (let sourceId = link_source link; targetId = link_target link in
      if nodeIndices sourceId = None then None
      else if nodeIndices targetId = None then None
      else Some \<lparr>pl_source = the (nodeIndices sourceId),
                 pl_target = the (nodeIndices targetId),
                 pl_value = num_or (link_value link) 2,
                 pl_type = str_or (link_type link) ''relationship''\<rparr>)"

definition build_links :: "(string \<rightharpoonup> nat) \<Rightarrow> GraphLink list \<Rightarrow> real ProcessedLink list" where
  "build_links nodeIndices gls =
     map the (filter (\<lambda>l. l \<noteq> None) (map (resolve_link nodeIndices) gls))"

definition build_model :: "(nat \<Rightarrow> real) \<Rightarrow> real \<Rightarrow> real \<Rightarrow> GraphData \<Rightarrow> ProcessedGraphData" where
  "build_model rnd width height graphData =
     (let nodes = build_nodes rnd width height (gd_nodes graphData);
          nodeIndices = build_nodeIndices nodes;
          links = build_links nodeIndices (gd_links graphData)
      in \<lparr>pd_nodes = nodes, pd_links = links\<rparr>)"

section \<open>Numbers and their arithmetic\<close>

text \<open>
  The simulation tick is written over a number type \<open>'n\<close> with its arithmetic as a
  parameter: the decimal literals, the four operations, \<^verbatim>\<open>Math.sqrt\<close>, \<^verbatim>\<open>Math.max\<close>,
  \<^verbatim>\<open>Math.min\<close> and the test that makes \<^verbatim>\<open>a || b\<close> answer \<open>b\<close>. What is proved of a tick
  for every arithmetic holds of the arithmetic of doubles, whatever it rounds to.
\<close>

record 'n Arith =
  op_lit :: "real \<Rightarrow> 'n"
  op_add :: "'n \<Rightarrow> 'n \<Rightarrow> 'n"
  op_sub :: "'n \<Rightarrow> 'n \<Rightarrow> 'n"
  op_mul :: "'n \<Rightarrow> 'n \<Rightarrow> 'n"
  op_div :: "'n \<Rightarrow> 'n \<Rightarrow> 'n"
  op_sqrt :: "'n \<Rightarrow> 'n"
  op_max :: "'n \<Rightarrow> 'n \<Rightarrow> 'n"
  op_min :: "'n \<Rightarrow> 'n \<Rightarrow> 'n"
  op_falsy :: "'n \<Rightarrow> bool"

definition or_else :: "'n Arith \<Rightarrow> 'n \<Rightarrow> 'n \<Rightarrow> 'n" where
  "or_else ops a b = (if op_falsy ops a then b else a)"

text \<open>The arithmetic of the real numbers, which the component state below is written in.\<close>

definition real_ops :: "real Arith" where
  "real_ops =
     \<lparr>op_lit = (\<lambda>r. r), op_add = (+), op_sub = (-), op_mul = (*), op_div = (/),
      op_sqrt = sqrt, op_max = max, op_min = min, op_falsy = (\<lambda>a. a = 0)\<rparr>"

text \<open>
  The values of a JavaScript number: a finite number, an infinity or NaN. A comparison
  with NaN is false; \<^verbatim>\<open>Math.max\<close> and \<^verbatim>\<open>Math.min\<close> answer NaN when an argument is NaN;
  0 and NaN are the falsy numbers. (The sign of zero is not modelled.)
\<close>

datatype jsnum = NegInf | Fin real | PosInf | NaN

fun js_le :: "jsnum \<Rightarrow> jsnum \<Rightarrow> bool" where
  "js_le NaN b = False"
| "js_le a NaN = False"
| "js_le NegInf b = True"
| "js_le a PosInf = True"
| "js_le (Fin a) (Fin b) = (a \<le> b)"
| "js_le PosInf b = False"
| "js_le a NegInf = False"

definition js_max :: "jsnum \<Rightarrow> jsnum \<Rightarrow> jsnum" where
  "js_max a b = (if a = NaN \<or> b = NaN then NaN else if js_le a b then b else a)"

definition js_min :: "jsnum \<Rightarrow> jsnum \<Rightarrow> jsnum" where
  "js_min a b = (if a = NaN \<or> b = NaN then NaN else if js_le a b then a else b)"

definition js_falsy :: "jsnum \<Rightarrow> bool" where
  "js_falsy a = (a = Fin 0 \<or> a = NaN)"

text \<open>
  Exact arithmetic on these values: the IEEE results on infinities and NaN, and on finite
  operands the exact result, neither rounded nor overflowing. It is the arithmetic of
  doubles wherever the operands and the exact result are doubles, and serves to run the
  tick on such inputs.
\<close>

fun js_add :: "jsnum \<Rightarrow> jsnum \<Rightarrow> jsnum" where
  "js_add NaN b = NaN"
| "js_add a NaN = NaN"
| "js_add (Fin a) (Fin b) = Fin (a + b)"
| "js_add PosInf NegInf = NaN"
| "js_add NegInf PosInf = NaN"
| "js_add PosInf b = PosInf"
| "js_add a PosInf = PosInf"
| "js_add NegInf b = NegInf"
| "js_add a NegInf = NegInf"

fun js_neg :: "jsnum \<Rightarrow> jsnum" where
  "js_neg NaN = NaN"
| "js_neg (Fin a) = Fin (- a)"
| "js_neg PosInf = NegInf"
| "js_neg NegInf = PosInf"

definition js_sub :: "jsnum \<Rightarrow> jsnum \<Rightarrow> jsnum" where
  "js_sub a b = js_add a (js_neg b)"

definition js_mul :: "jsnum \<Rightarrow> jsnum \<Rightarrow> jsnum" where
  "js_mul a b =
     (if a = NaN \<or> b = NaN then NaN
      else case (a, b) of
             (Fin x, Fin y) \<Rightarrow> Fin (x * y)
           | _ \<Rightarrow> if a = Fin 0 \<or> b = Fin 0 then NaN
                  else if js_le (Fin 0) a = js_le (Fin 0) b then PosInf else NegInf)"

definition js_div :: "jsnum \<Rightarrow> jsnum \<Rightarrow> jsnum" where
  "js_div a b =
     (if a = NaN \<or> b = NaN then NaN
      else case (a, b) of
             (Fin x, Fin y) \<Rightarrow>
               if y \<noteq> 0 then Fin (x / y)
               else if x = 0 then NaN else if 0 < x then PosInf else NegInf
           | (Fin x, _) \<Rightarrow> Fin 0
           | (_, Fin y) \<Rightarrow> if js_le (Fin 0) a = (0 \<le> y) then PosInf else NegInf
           | _ \<Rightarrow> NaN)"

fun js_sqrt :: "jsnum \<Rightarrow> jsnum" where
  "js_sqrt (Fin a) = (if a < 0 then NaN else Fin (sqrt a))"
| "js_sqrt PosInf = PosInf"
| "js_sqrt a = NaN"

definition exact_ops :: "jsnum Arith" where
  "exact_ops =
     \<lparr>op_lit = Fin, op_add = js_add, op_sub = js_sub, op_mul = js_mul, op_div = js_div,
      op_sqrt = js_sqrt, op_max = js_max, op_min = js_min, op_falsy = js_falsy\<rparr>"

text \<open>
  The same arithmetic with overflow: a result of magnitude \<open>2^1024\<close> or more, which no
  double can hold, becomes an infinity.
\<close>

definition huge :: real where
  "huge = 2 ^ 1024"

definition overflow :: "jsnum \<Rightarrow> jsnum" where
  "overflow a =
     (case a of
        Fin r \<Rightarrow> if huge \<le> r then PosInf else if r \<le> - huge then NegInf else Fin r
      | _ \<Rightarrow> a)"

definition overflow_ops :: "jsnum Arith" where
  "overflow_ops =
     \<lparr>op_lit = Fin,
      op_add = (\<lambda>a b. overflow (js_add a b)),
      op_sub = (\<lambda>a b. overflow (js_sub a b)),
      op_mul = (\<lambda>a b. overflow (js_mul a b)),
      op_div = (\<lambda>a b. overflow (js_div a b)),
      op_sqrt = js_sqrt, op_max = js_max, op_min = js_min, op_falsy = js_falsy\<rparr>"

section \<open>The simulation tick (simulateForces)\<close>

text \<open>
  The tick mutates the node objects in place; the model passes the node array along and
  writes each mutated node back at its index. The loops over \<^verbatim>\<open>i\<close> and \<^verbatim>\<open>j\<close> are folds
  over \<open>[0..<length nodes]\<close>, the loop over the links a fold over the link list.
\<close>

definition position :: "'n ProcessedNode \<Rightarrow> 'n \<times> 'n" where
  "position node = (node_x node, node_y node)"

definition velocity :: "'n ProcessedNode \<Rightarrow> 'n \<times> 'n" where
  "velocity node = (node_vx node, node_vy node)"

text \<open>
  The force of the inner loop, for the position \<open>p\<close> of \<^verbatim>\<open>node\<close> and \<open>q\<close> of
  \<^verbatim>\<open>otherNode\<close>: the pair \<^verbatim>\<open>((dx / dist) * forceMagnitude, (dy / dist) * forceMagnitude)\<close>.
\<close>

definition repulsion :: "'n Arith \<Rightarrow> 'n \<times> 'n \<Rightarrow> 'n \<times> 'n \<Rightarrow> 'n \<times> 'n" where
  "repulsion ops p q =
     (let dx = op_sub ops (fst p) (fst q);
          dy = op_sub ops (snd p) (snd q);
          dist = or_else ops
                   (op_sqrt ops (op_add ops (op_mul ops dx dx) (op_mul ops dy dy)))
                   (op_lit ops 1);
          forceMagnitude = op_div ops (op_lit ops 1000) (op_mul ops dist dist)
      in (op_mul ops (op_div ops dx dist) forceMagnitude,
          op_mul ops (op_div ops dy dist) forceMagnitude))"

text \<open>The body of the inner loop: node \<open>j\<close> repels node \<open>i\<close>.\<close>

definition repel :: "'n Arith \<Rightarrow> nat \<Rightarrow> nat \<Rightarrow> 'n ProcessedNode list \<Rightarrow> 'n ProcessedNode list" where
  "repel ops i j nodes =
     (if i = j then nodes
      else
        let node = nodes ! i;
            otherNode = nodes ! j;
            f = repulsion ops (position node) (position otherNode)
        in nodes[i := node\<lparr>node_vx := op_add ops (node_vx node) (fst f),
                            node_vy := op_add ops (node_vy node) (snd f)\<rparr>])"

text \<open>The body of the first loop: centering, then the repulsion by every other node.\<close>

definition apply_forces ::
  "'n Arith \<Rightarrow> 'n \<Rightarrow> 'n \<Rightarrow> nat option \<Rightarrow> nat \<Rightarrow> 'n ProcessedNode list \<Rightarrow> 'n ProcessedNode list" where
  "apply_forces ops width height dragNode i nodes =
     (if dragNode = Some i then nodes
      else
        let node = nodes ! i;
            centred = nodes[i := node
              \<lparr>node_vx := op_add ops (node_vx node)
                 (op_mul ops (op_sub ops (op_div ops width (op_lit ops 2)) (node_x node))
                    (op_lit ops 0.005)),
               node_vy := op_add ops (node_vy node)
                 (op_mul ops (op_sub ops (op_div ops height (op_lit ops 2)) (node_y node))
                    (op_lit ops 0.005))\<rparr>]
        in fold (repel ops i) [0..<length centred] centred)"

text \<open>
  The force of a link of weight \<open>v\<close> between a source at \<open>p\<close> and a target at \<open>q\<close>: the
  pair \<^verbatim>\<open>((dx / dist) * forceMagnitude, (dy / dist) * forceMagnitude)\<close> of the link loop.
\<close>

definition spring_force :: "'n Arith \<Rightarrow> 'n \<Rightarrow> 'n \<times> 'n \<Rightarrow> 'n \<times> 'n \<Rightarrow> 'n \<times> 'n" where
  "spring_force ops v p q =
     (let dx = op_sub ops (fst q) (fst p);
          dy = op_sub ops (snd q) (snd p);
          dist = or_else ops
                   (op_sqrt ops (op_add ops (op_mul ops dx dx) (op_mul ops dy dy)))
                   (op_lit ops 1);
          forceMagnitude =
            op_mul ops (op_mul ops (op_sub ops dist (op_lit ops 100)) (op_lit ops 0.03))
              (op_min ops v (op_lit ops 10))
      in (op_mul ops (op_div ops dx dist) forceMagnitude,
          op_mul ops (op_div ops dy dist) forceMagnitude))"

text \<open>
  The body of the loop over the links. Source and target may be the same object, so the
  target is read after the source has been written.
\<close>

definition spring ::
  "'n Arith \<Rightarrow> nat option \<Rightarrow> 'n ProcessedLink \<Rightarrow> 'n ProcessedNode list \<Rightarrow> 'n ProcessedNode list" where
  "spring ops dragNode link nodes =
     (if pl_source link \<ge> length nodes \<or> pl_target link \<ge> length nodes then nodes
      else
        let source = nodes ! pl_source link;
            target = nodes ! pl_target link;
            f = spring_force ops (pl_value link) (position source) (position target);
            nodes1 =
              (if dragNode \<noteq> Some (pl_source link)
               then nodes[pl_source link :=
                      source\<lparr>node_vx := op_add ops (node_vx source) (fst f),
                             node_vy := op_add ops (node_vy source) (snd f)\<rparr>]
               else nodes);
            target1 = nodes1 ! pl_target link
        in if dragNode \<noteq> Some (pl_target link)
           then nodes1[pl_target link :=
                  target1\<lparr>node_vx := op_sub ops (node_vx target1) (fst f),
                          node_vy := op_sub ops (node_vy target1) (snd f)\<rparr>]
           else nodes1)"

text \<open>The body of the last loop: integration, damping and the boundary clamp.\<close>

definition integrate ::
  "'n Arith \<Rightarrow> 'n \<Rightarrow> 'n \<Rightarrow> nat option \<Rightarrow> nat \<Rightarrow> 'n ProcessedNode list \<Rightarrow> 'n ProcessedNode list" where
  "integrate ops width height dragNode i nodes =
     (if dragNode = Some i then nodes
      else
        let node = nodes ! i;
            x1 = op_add ops (node_x node) (node_vx node);
            y1 = op_add ops (node_y node) (node_vy node)
        in nodes[i := node
             \<lparr>node_x := op_max ops (op_lit ops 20)
                          (op_min ops (op_sub ops width (op_lit ops 20)) x1),
              node_y := op_max ops (op_lit ops 20)
                          (op_min ops (op_sub ops height (op_lit ops 20)) y1),
              node_vx := op_mul ops (node_vx node) (op_lit ops 0.9),
              node_vy := op_mul ops (node_vy node) (op_lit ops 0.9)\<rparr>])"

definition simulateForces ::
  "'n Arith \<Rightarrow> 'n \<Rightarrow> 'n \<Rightarrow> nat option \<Rightarrow> 'n ProcessedLink list \<Rightarrow> 'n ProcessedNode list
     \<Rightarrow> 'n ProcessedNode list" where
  "simulateForces ops width height dragNode links nodes =
     (let nodes1 = fold (apply_forces ops width height dragNode) [0..<length nodes] nodes;
          nodes2 = fold (spring ops dragNode) links nodes1
      in fold (integrate ops width height dragNode) [0..<length nodes2] nodes2)"

text \<open>\<open>n\<close> animation frames under the same dimensions and the same dragged node.\<close>

primrec ticks ::
  "'n Arith \<Rightarrow> nat \<Rightarrow> 'n \<Rightarrow> 'n \<Rightarrow> nat option \<Rightarrow> 'n ProcessedLink list \<Rightarrow> 'n ProcessedNode list
     \<Rightarrow> 'n ProcessedNode list" where
  "ticks ops 0 width height dragNode links nodes = nodes"
| "ticks ops (Suc n) width height dragNode links nodes =
     simulateForces ops width height dragNode links (ticks ops n width height dragNode links nodes)"

subsection \<open>What one tick computes for a node\<close>

text \<open>
  The velocity that the first loop leaves in node \<open>i\<close>: its velocity plus the centering
  term, plus the repulsion by every other node in index order, all at the positions the
  tick starts from.
\<close>

definition add_pair :: "'n Arith \<Rightarrow> 'n \<times> 'n \<Rightarrow> 'n \<times> 'n \<Rightarrow> 'n \<times> 'n" where
  "add_pair ops v f = (op_add ops (fst v) (fst f), op_add ops (snd v) (snd f))"

definition sub_pair :: "'n Arith \<Rightarrow> 'n \<times> 'n \<Rightarrow> 'n \<times> 'n \<Rightarrow> 'n \<times> 'n" where
  "sub_pair ops v f = (op_sub ops (fst v) (fst f), op_sub ops (snd v) (snd f))"

definition centred_velocity :: "'n Arith \<Rightarrow> 'n \<Rightarrow> 'n \<Rightarrow> 'n ProcessedNode \<Rightarrow> 'n \<times> 'n" where
  "centred_velocity ops width height node =
     (op_add ops (node_vx node)
        (op_mul ops (op_sub ops (op_div ops width (op_lit ops 2)) (node_x node)) (op_lit ops 0.005)),
      op_add ops (node_vy node)
        (op_mul ops (op_sub ops (op_div ops height (op_lit ops 2)) (node_y node)) (op_lit ops 0.005)))"

definition repelled_by :: "'n Arith \<Rightarrow> 'n ProcessedNode list \<Rightarrow> nat \<Rightarrow> nat \<Rightarrow> 'n \<times> 'n \<Rightarrow> 'n \<times> 'n" where
  "repelled_by ops nodes i j v =
     (if i = j then v
      else add_pair ops v (repulsion ops (position (nodes ! i)) (position (nodes ! j))))"

definition repelled_velocity ::
  "'n Arith \<Rightarrow> 'n ProcessedNode list \<Rightarrow> nat \<Rightarrow> 'n \<times> 'n \<Rightarrow> 'n \<times> 'n" where
  "repelled_velocity ops nodes i v = fold (repelled_by ops nodes i) [0..<length nodes] v"

text \<open>
  The velocity that the link loop then leaves in a node \<open>i\<close> that is not dragged: each link
  in list order adds its force when \<open>i\<close> is its source and then subtracts it when \<open>i\<close> is its
  target.
\<close>

definition sprung_by ::
  "'n Arith \<Rightarrow> 'n ProcessedNode list \<Rightarrow> nat \<Rightarrow> 'n ProcessedLink \<Rightarrow> 'n \<times> 'n \<Rightarrow> 'n \<times> 'n" where
  "sprung_by ops nodes i link v =
     (if pl_source link \<ge> length nodes \<or> pl_target link \<ge> length nodes then v
      else
        let f = spring_force ops (pl_value link)
                  (position (nodes ! pl_source link)) (position (nodes ! pl_target link));
            v1 = (if pl_source link = i then add_pair ops v f else v)
        in if pl_target link = i then sub_pair ops v1 f else v1)"

definition sprung_velocity ::
  "'n Arith \<Rightarrow> 'n ProcessedNode list \<Rightarrow> nat \<Rightarrow> 'n ProcessedLink list \<Rightarrow> 'n \<times> 'n \<Rightarrow> 'n \<times> 'n" where
  "sprung_velocity ops nodes i links v = fold (sprung_by ops nodes i) links v"

text \<open>
  The pairwise repulsion as the specification words it, for comparison with \<open>repulsion\<close>:
  unit(\<Delta>position) \<times> (1000 / max(distance, 1)^2).
\<close>

definition spec_repulsion :: "'n Arith \<Rightarrow> 'n \<times> 'n \<Rightarrow> 'n \<times> 'n \<Rightarrow> 'n \<times> 'n" where
  "spec_repulsion ops p q =
     (let dx = op_sub ops (fst p) (fst q);
          dy = op_sub ops (snd p) (snd q);
          distance = op_sqrt ops (op_add ops (op_mul ops dx dx) (op_mul ops dy dy));
          floored = op_max ops distance (op_lit ops 1);
          magnitude = op_div ops (op_lit ops 1000) (op_mul ops floored floored)
      in (op_mul ops (op_div ops dx distance) magnitude,
          op_mul ops (op_div ops dy distance) magnitude))"

section \<open>Component state and event handlers\<close>

record Dimensions =
  dim_width :: real
  dim_height :: real

record Point =
  pt_x :: real
  pt_y :: real

text \<open>What \<^verbatim>\<open>canvas.getBoundingClientRect()\<close> returns.\<close>

record Rect =
  rect_left :: real
  rect_top :: real
  rect_width :: real
  rect_height :: real

record TooltipNode =
  tn_node :: "real ProcessedNode"
  tn_x :: real
  tn_y :: real

record TooltipLink =
  tl_source :: string
  tl_target :: string
  tl_type :: string
  tl_x :: real
  tl_y :: real

text \<open>
  The state of the component: the \<^verbatim>\<open>graphData\<close> prop (\<open>None\<close> when the guard
  \<^verbatim>\<open>!graphData || !graphData.nodes || !graphData.links\<close> fires), the canvas (\<open>None\<close> when
  \<^verbatim>\<open>canvasRef.current\<close> is null, else its bounding rectangle), the \<^verbatim>\<open>useState\<close> cells, and
  the results of the future calls of \<^verbatim>\<open>Math.random()\<close>.
\<close>

record GraphState =
  graphData :: "GraphData option"
  canvas :: "Rect option"
  dimensions :: Dimensions
  tooltipNode :: "TooltipNode option"
  tooltipLink :: "TooltipLink option"
  isDragging :: bool
  dragNode :: "nat option"
  processedData :: "ProcessedGraphData option"
  transform :: Transform
  isPanning :: bool
  lastMousePos :: Point
  random :: "nat \<Rightarrow> real"

definition screenToGraph :: "Transform \<Rightarrow> real \<Rightarrow> real \<Rightarrow> real \<times> real" where
  "screenToGraph tr screenX screenY =
     ((screenX - translateX tr) / scale tr, (screenY - translateY tr) / scale tr)"

text \<open>The node loop of the hover test: the first node whose circle contains the point.\<close>

fun find_hovered_node :: "Transform \<Rightarrow> real \<Rightarrow> real \<Rightarrow> real ProcessedNode list \<Rightarrow> TooltipNode option" where
  "find_hovered_node tr x y [] = None"
| "find_hovered_node tr x y (node # rest) =
     (let dx = node_x node - x;
          dy = node_y node - y;
          distance = sqrt (dx * dx + dy * dy);
          nodeRadius = node_size node / 2 + 4
      in if distance < nodeRadius
         then Some \<lparr>tn_node = node,
                    tn_x = node_x node * scale tr + translateX tr,
                    tn_y = node_y node * scale tr + translateY tr\<rparr>
         else find_hovered_node tr x y rest)"

text \<open>The distance from the point to the segment of a link, as the link loop computes it.\<close>

definition segment_distance :: "real \<Rightarrow> real \<Rightarrow> real ProcessedNode \<Rightarrow> real ProcessedNode \<Rightarrow> real" where
  "segment_distance x y source target =
     (let A = x - node_x source;
          B = y - node_y source;
          C = node_x target - node_x source;
          D = node_y target - node_y source;
          dot = A * C + B * D;
          len_sq = C * C + D * D;
          param = (if len_sq \<noteq> 0 then dot / len_sq else - 1);
          xx = (if param < 0 then node_x source
                else if param > 1 then node_x target
                else node_x source + param * C);
          yy = (if param < 0 then node_y source
                else if param > 1 then node_y target
                else node_y source + param * D);
          dx = x - xx;
          dy = y - yy
      in sqrt (dx * dx + dy * dy))"

text \<open>The link loop of the hover test; a link with a missing endpoint is skipped.\<close>

fun find_hovered_link ::
  "Transform \<Rightarrow> real \<Rightarrow> real \<Rightarrow> real ProcessedNode list \<Rightarrow> real ProcessedLink list \<Rightarrow> TooltipLink option" where
  "find_hovered_link tr x y nodes [] = None"
| "find_hovered_link tr x y nodes (link # rest) =
     (if pl_source link \<ge> length nodes \<or> pl_target link \<ge> length nodes
      then find_hovered_link tr x y nodes rest
      else
        let source = nodes ! pl_source link;
            target = nodes ! pl_target link;
            distance = segment_distance x y source target;
            detectionRadius = 5 / scale tr
        in if distance < detectionRadius
           then
             let midX = (node_x source + node_x target) / 2;
                 midY = (node_y source + node_y target) / 2
             in Some \<lparr>tl_source = node_id source, tl_target = node_id target,
                       tl_type = pl_type link,
                       tl_x = midX * scale tr + translateX tr,
                       tl_y = midY * scale tr + translateY tr\<rparr>
           else find_hovered_link tr x y nodes rest)"

text \<open>The node loop of \<^verbatim>\<open>handleMouseDown\<close>: the index of the first node hit, from index \<open>i\<close>.\<close>

fun find_node_at :: "real \<Rightarrow> real \<Rightarrow> nat \<Rightarrow> real ProcessedNode list \<Rightarrow> nat option" where
  "find_node_at x y i [] = None"
| "find_node_at x y i (node # rest) =
     (let dx = node_x node - x;
          dy = node_y node - y;
          distance = sqrt (dx * dx + dy * dy);
          nodeRadius = node_size node / 2 + 4
      in if distance < nodeRadius then Some i else find_node_at x y (Suc i) rest)"

definition handleMouseMove :: "real \<Rightarrow> real \<Rightarrow> GraphState \<Rightarrow> GraphState" where
  "handleMouseMove clientX clientY s =
     (case canvas s of
        None \<Rightarrow> s
      | Some rect \<Rightarrow>
          let screenX = clientX - rect_left rect;
              screenY = clientY - rect_top rect
          in if isPanning s
             then
               let dx = screenX - pt_x (lastMousePos s);
                   dy = screenY - pt_y (lastMousePos s)
               in s\<lparr>transform := (transform s)\<lparr>translateX := translateX (transform s) + dx,
                                                translateY := translateY (transform s) + dy\<rparr>,
                     lastMousePos := \<lparr>pt_x = screenX, pt_y = screenY\<rparr>\<rparr>
             else
               case screenToGraph (transform s) screenX screenY of (x, y) \<Rightarrow>
                 if isDragging s \<and> dragNode s \<noteq> None \<and> processedData s \<noteq> None
                 then
                   let pd = the (processedData s);
                       d = the (dragNode s)
                   in if d < length (pd_nodes pd)
                      then s\<lparr>processedData :=
                               Some (pd\<lparr>pd_nodes := (pd_nodes pd)
                                 [d := (pd_nodes pd ! d)\<lparr>node_x := x, node_y := y,
                                                         node_vx := 0, node_vy := 0\<rparr>]\<rparr>)\<rparr>
                      else s
                 else
                   case processedData s of
                     None \<Rightarrow> s
                   | Some pd \<Rightarrow>
                       (case find_hovered_node (transform s) x y (pd_nodes pd) of
                          Some hoveredNode \<Rightarrow>
                            s\<lparr>tooltipNode := Some hoveredNode, tooltipLink := None\<rparr>
                        | None \<Rightarrow>
                            (case find_hovered_link (transform s) x y (pd_nodes pd) (pd_links pd) of
                               Some hoveredLink \<Rightarrow>
                                 s\<lparr>tooltipNode := None, tooltipLink := Some hoveredLink\<rparr>
                             | None \<Rightarrow> s\<lparr>tooltipNode := None, tooltipLink := None\<rparr>)))"

definition handleMouseDown :: "nat \<Rightarrow> bool \<Rightarrow> real \<Rightarrow> real \<Rightarrow> GraphState \<Rightarrow> GraphState" where
  "handleMouseDown buttons altKey clientX clientY s =
     (case (canvas s, processedData s) of
        (Some rect, Some pd) \<Rightarrow>
          let screenX = clientX - rect_left rect;
              screenY = clientY - rect_top rect
          in if buttons = 4 \<or> (buttons = 1 \<and> altKey)
             then s\<lparr>isPanning := True, lastMousePos := \<lparr>pt_x = screenX, pt_y = screenY\<rparr>\<rparr>
             else
               case screenToGraph (transform s) screenX screenY of (x, y) \<Rightarrow>
                 (case find_node_at x y 0 (pd_nodes pd) of
                    Some i \<Rightarrow> s\<lparr>isDragging := True, dragNode := Some i\<rparr>
                  | None \<Rightarrow> s)
      | _ \<Rightarrow> s)"

definition handleMouseUp :: "GraphState \<Rightarrow> GraphState" where
  "handleMouseUp s = s\<lparr>isDragging := False, dragNode := None, isPanning := False\<rparr>"

text \<open>
  \<^verbatim>\<open>handleWheel\<close>, in two parts: the multiplier chosen from \<^verbatim>\<open>deltaY\<close>, and the update
  of the transform by a multiplier \<open>delta\<close> about the point \<open>(mouseX, mouseY)\<close>
  (\<open>None\<close> is the early \<^verbatim>\<open>return\<close> that leaves the transform as it is).
\<close>

definition wheel_delta :: "real \<Rightarrow> real" where
  "wheel_delta deltaY = (if deltaY < 0 then 1.1 else 0.9)"

definition zoom_about :: "real \<Rightarrow> real \<Rightarrow> real \<Rightarrow> Transform \<Rightarrow> Transform option" where
  "zoom_about delta mouseX mouseY tr =
     (let newScale = scale tr * delta
      in if newScale < 0.1 \<or> newScale > 10 then None
         else
           let scaleRatio = 1 - delta
           in Some \<lparr>scale = newScale,
                     translateX = translateX tr + scaleRatio * (mouseX - translateX tr),
                     translateY = translateY tr + scaleRatio * (mouseY - translateY tr)\<rparr>)"

definition handleWheel :: "real \<Rightarrow> real \<Rightarrow> real \<Rightarrow> GraphState \<Rightarrow> GraphState" where
  "handleWheel deltaY clientX clientY s =
     (case canvas s of
        None \<Rightarrow> s
      | Some rect \<Rightarrow>
          let mouseX = clientX - rect_left rect;
              mouseY = clientY - rect_top rect
          in case zoom_about (wheel_delta deltaY) mouseX mouseY (transform s) of
               None \<Rightarrow> s
             | Some tr \<Rightarrow> s\<lparr>transform := tr\<rparr>)"

definition handleKeyDown :: "string \<Rightarrow> GraphState \<Rightarrow> GraphState" where
  "handleKeyDown key s =
     (let s1 = (if key = ''r'' \<or> key = ''R''
                then s\<lparr>transform := \<lparr>scale = 1, translateX = 0, translateY = 0\<rparr>\<rparr>
                else s)
      in if key = ''Alt'' \<and> isPanning s = False
         then
           (case canvas s of
              Some rect \<Rightarrow>
                s1\<lparr>isPanning := True,
                    lastMousePos := \<lparr>pt_x = rect_width rect / 2, pt_y = rect_height rect / 2\<rparr>\<rparr>
            | None \<Rightarrow> s1\<lparr>isPanning := True\<rparr>)
         else s1)"

definition handleKeyUp :: "string \<Rightarrow> GraphState \<Rightarrow> GraphState" where
  "handleKeyUp key s = (if key = ''Alt'' then s\<lparr>isPanning := False\<rparr> else s)"

text \<open>The three buttons of the zoom controls.\<close>

definition zoomInClick :: "GraphState \<Rightarrow> GraphState" where
  "zoomInClick s = s\<lparr>transform := (transform s)\<lparr>scale := min (scale (transform s) * 1.2) 10\<rparr>\<rparr>"

definition zoomOutClick :: "GraphState \<Rightarrow> GraphState" where
  "zoomOutClick s = s\<lparr>transform := (transform s)\<lparr>scale := max (scale (transform s) / 1.2) 0.1\<rparr>\<rparr>"

definition resetClick :: "GraphState \<Rightarrow> GraphState" where
  "resetClick s = s\<lparr>transform := \<lparr>scale = 1, translateX = 0, translateY = 0\<rparr>\<rparr>"

text \<open>
  The effect with dependencies \<^verbatim>\<open>[graphData, dimensions]\<close>: it rebuilds the whole model at
  the current dimensions, drawing two random numbers for each node.
\<close>

definition rebuild :: "GraphState \<Rightarrow> GraphState" where
  "rebuild s =
     (case graphData s of
        None \<Rightarrow> s
      | Some gd \<Rightarrow>
          s\<lparr>processedData :=
               Some (build_model (random s) (dim_width (dimensions s)) (dim_height (dimensions s)) gd),
            random := (\<lambda>k. random s (k + 2 * length (gd_nodes gd)))\<rparr>)"

text \<open>
  \<^verbatim>\<open>updateDimensions\<close>, run by a window resize with the container's width and height:
  \<^verbatim>\<open>setDimensions\<close> stores a new object, so the effect above runs again.
\<close>

definition updateDimensions :: "real \<Rightarrow> real \<Rightarrow> GraphState \<Rightarrow> GraphState" where
  "updateDimensions w h s = rebuild (s\<lparr>dimensions := \<lparr>dim_width = w, dim_height = max 500 h\<rparr>\<rparr>)"

text \<open>A new \<^verbatim>\<open>graphData\<close> prop.\<close>

definition setGraphData :: "GraphData option \<Rightarrow> GraphState \<Rightarrow> GraphState" where
  "setGraphData g s = rebuild (s\<lparr>graphData := g\<rparr>)"

text \<open>One animation frame: the effect does not run the simulation on an absent or empty model.\<close>

definition frame :: "GraphState \<Rightarrow> GraphState" where
  "frame s =
     (case processedData s of
        None \<Rightarrow> s
      | Some pd \<Rightarrow>
          if length (pd_nodes pd) = 0 then s
          else s\<lparr>processedData :=
                   Some (pd\<lparr>pd_nodes :=
                     simulateForces real_ops (dim_width (dimensions s)) (dim_height (dimensions s))
                       (dragNode s) (pd_links pd) (pd_nodes pd)\<rparr>)\<rparr>)"

datatype Event =
    MouseMove real real
  | MouseDown nat bool real real
  | MouseUp
  | Wheel real real real
  | KeyDown string
  | KeyUp string
  | ZoomInClick
  | ZoomOutClick
  | ResetClick
  | Resize real real
  | NewGraphData "GraphData option"
  | Frame

fun step :: "Event \<Rightarrow> GraphState \<Rightarrow> GraphState" where
  "step (MouseMove clientX clientY) s = handleMouseMove clientX clientY s"
| "step (MouseDown buttons altKey clientX clientY) s = handleMouseDown buttons altKey clientX clientY s"
| "step MouseUp s = handleMouseUp s"
| "step (Wheel deltaY clientX clientY) s = handleWheel deltaY clientX clientY s"
| "step (KeyDown key) s = handleKeyDown key s"
| "step (KeyUp key) s = handleKeyUp key s"
| "step ZoomInClick s = zoomInClick s"
| "step ZoomOutClick s = zoomOutClick s"
| "step ResetClick s = resetClick s"
| "step (Resize w h) s = updateDimensions w h s"
| "step (NewGraphData g) s = setGraphData g s"
| "step Frame s = frame s"

section \<open>Example inputs\<close>

definition ex_graph :: GraphData where
  "ex_graph =
     \<lparr>gd_nodes = [\<lparr>node_id = ''A'', node_size = 10, node_role = ''main'', node_description = None\<rparr>,
                  \<lparr>node_id = ''B'', node_size = 10, node_role = ''minor'', node_description = None\<rparr>],
      gd_links = [\<lparr>link_source = ''A'', link_target = ''B'', link_value = 5, link_type = ''Friend''\<rparr>,
                  \<lparr>link_source = ''A'', link_target = ''Z'', link_value = 1, link_type = ''Enemy''\<rparr>]\<rparr>"

text \<open>The two nodes of that graph in an 800 by 600 viewport, A at the centre and B 100 to its right.\<close>

definition ex_node_A :: "real ProcessedNode" where
  "ex_node_A =
     \<lparr>node_id = ''A'', node_size = 10, node_role = ''main'', node_description = None,
      node_color = ''#ff6b6b'', node_x = 400, node_y = 300, node_vx = 0, node_vy = 0\<rparr>"

definition ex_node_B :: "real ProcessedNode" where
  "ex_node_B =
     \<lparr>node_id = ''B'', node_size = 10, node_role = ''minor'', node_description = None,
      node_color = ''#ffd166'', node_x = 500, node_y = 300, node_vx = 0, node_vy = 0\<rparr>"

definition ex_nodes :: "real ProcessedNode list" where
  "ex_nodes = [ex_node_A, ex_node_B]"

definition ex_links :: "real ProcessedLink list" where
  "ex_links = [\<lparr>pl_source = 0, pl_target = 1, pl_value = 5, pl_type = ''Friend''\<rparr>]"

text \<open>Nodes at rest over JavaScript numbers, for running the tick.\<close>

definition js_node :: "string \<Rightarrow> real \<Rightarrow> real \<Rightarrow> jsnum ProcessedNode" where
  "js_node name x y =
     \<lparr>node_id = name, node_size = 10, node_role = ''other'', node_description = None,
      node_color = ''#6a89cc'', node_x = Fin x, node_y = Fin y, node_vx = Fin 0, node_vy = Fin 0\<rparr>"

text \<open>Nodes A and B 100 apart with the link between them; two nodes half a unit apart.\<close>

definition js_ex_nodes :: "jsnum ProcessedNode list" where
  "js_ex_nodes = [js_node ''A'' 400 300, js_node ''B'' 500 300]"

definition js_ex_links :: "jsnum ProcessedLink list" where
  "js_ex_links = [\<lparr>pl_source = 0, pl_target = 1, pl_value = Fin 5, pl_type = ''Friend''\<rparr>]"

definition js_close_nodes :: "jsnum ProcessedNode list" where
  "js_close_nodes = [js_node ''C'' 400.5 300, js_node ''A'' 400 300]"

text \<open>Two nodes \<open>10^-160\<close> apart.\<close>

definition js_tiny_nodes :: "jsnum ProcessedNode list" where
  "js_tiny_nodes = [js_node ''A'' (1 / 10 ^ 160) 300, js_node ''B'' 0 300]"

text \<open>
  An idle state: the example graph laid out in a canvas of 800 by 600 at the page origin,
  the identity transform, no button or key held.
\<close>

definition ex_state :: GraphState where
  "ex_state =
     \<lparr>graphData = Some ex_graph,
      canvas = Some \<lparr>rect_left = 0, rect_top = 0, rect_width = 800, rect_height = 600\<rparr>,
      dimensions = \<lparr>dim_width = 800, dim_height = 600\<rparr>,
      tooltipNode = None,
      tooltipLink = None,
      isDragging = False,
      dragNode = None,
      processedData = Some \<lparr>pd_nodes = ex_nodes, pd_links = ex_links\<rparr>,
      transform = \<lparr>scale = 1, translateX = 0, translateY = 0\<rparr>,
      isPanning = False,
      lastMousePos = \<lparr>pt_x = 0, pt_y = 0\<rparr>,
      random = (\<lambda>_. 1 / 2)\<rparr>"

text \<open>The same state while node A (index 0) is being dragged.\<close>

definition ex_drag_state :: GraphState where
  "ex_drag_state = ex_state\<lparr>isDragging := True, dragNode := Some 0\<rparr>"

section \<open>Properties of the model build\<close>

lemma length_build_nodes: "length (build_nodes rnd w h gns) = length gns"
  by (simp add: build_nodes_def)

lemma node_id_place_node: "node_id (place_node rnd w h (i, n)) = node_id n"
  by (simp add: place_node_def GraphNode.extend_def)

lemma ids_build_nodes: "map node_id (build_nodes rnd w h gns) = map node_id gns"
  by (simp add: build_nodes_def enumerate_eq_zip map_equality_iff place_node_def
      GraphNode.extend_def)


lemma nodeIndices_fold_None:
  "(fold (\<lambda>p m. case p of (index, node) \<Rightarrow> m(node_id node \<mapsto> index)) (enumerate n ns) m0 k = None)
     = (m0 k = None \<and> k \<notin> node_id ` set ns)"
  by (induction ns arbitrary: n m0) auto

lemma nodeIndices_fold_Some:
  "fold (\<lambda>p m. case p of (index, node) \<Rightarrow> m(node_id node \<mapsto> index)) (enumerate n ns) m0 k = Some i
     \<Longrightarrow> (m0 k = Some i \<and> k \<notin> node_id ` set ns) \<or> (n \<le> i \<and> i < n + length ns \<and> node_id (ns ! (i - n)) = k)"
proof (induction ns arbitrary: n m0)
  case Nil
  then show ?case by simp
next
  case (Cons a ns)
  from Cons.prems have
    "fold (\<lambda>p m. case p of (index, node) \<Rightarrow> m(node_id node \<mapsto> index)) (enumerate (Suc n) ns) (m0(node_id a \<mapsto> n)) k = Some i"
    by (simp del: fun_upd_apply)
  from Cons.IH [OF this] show ?case
    by (auto split: if_splits simp: nth_Cons')
qed

lemma build_nodeIndices_None: "(build_nodeIndices ns k = None) = (k \<notin> node_id ` set ns)"
  by (simp add: build_nodeIndices_def nodeIndices_fold_None)

lemma build_nodeIndices_Some:
  "build_nodeIndices ns k = Some i \<Longrightarrow> i < length ns \<and> node_id (ns ! i) = k"
  using nodeIndices_fold_Some [of 0 ns Map.empty k i] by (simp add: build_nodeIndices_def)

lemma build_links_filter:
  "build_links idx gls =
     map (\<lambda>l. \<lparr>pl_source = the (idx (link_source l)), pl_target = the (idx (link_target l)),
               pl_value = num_or (link_value l) 2, pl_type = str_or (link_type l) ''relationship''\<rparr>)
       (filter (\<lambda>l. idx (link_source l) \<noteq> None \<and> idx (link_target l) \<noteq> None) gls)"
  by (induction gls) (auto simp: build_links_def resolve_link_def Let_def)

text \<open>
  Claim C1. For every raw graph input, the built model keeps the node list as the input
  gives it (same length, same ids, whatever the links are), and its link list is the raw
  link list without exactly the links whose source or target id is not the id of a node,
  each kept link resolved on its own through the node-id map. The index that the map gives
  for a known id is below the number of nodes and is the index of a node with that id, so
  every link of the built model has both indices in \<open>[0, nodes.length)\<close>.
\<close>

theorem build_model_links_resolved:
  "let pd = build_model rnd width height gd;
       nodes = pd_nodes pd;
       ids = node_id ` set (gd_nodes gd);
       idx = build_nodeIndices nodes
   in nodes = build_nodes rnd width height (gd_nodes gd)
      \<and> map node_id nodes = map node_id (gd_nodes gd)
      \<and> pd_links pd =
          map (\<lambda>l. \<lparr>pl_source = the (idx (link_source l)), pl_target = the (idx (link_target l)),
                    pl_value = num_or (link_value l) 2,
                    pl_type = str_or (link_type l) ''relationship''\<rparr>)
            (filter (\<lambda>l. link_source l \<in> ids \<and> link_target l \<in> ids) (gd_links gd))
      \<and> (\<forall>l \<in> set (gd_links gd). link_source l \<in> ids \<longrightarrow>
             the (idx (link_source l)) < length nodes
             \<and> node_id (nodes ! the (idx (link_source l))) = link_source l)
      \<and> (\<forall>l \<in> set (gd_links gd). link_target l \<in> ids \<longrightarrow>
             the (idx (link_target l)) < length nodes
             \<and> node_id (nodes ! the (idx (link_target l))) = link_target l)
      \<and> (\<forall>pl \<in> set (pd_links pd). pl_source pl < length nodes \<and> pl_target pl < length nodes)"
proof -
  define nodes where "nodes = build_nodes rnd width height (gd_nodes gd)"
  define idx where "idx = build_nodeIndices nodes"
  define ids where "ids = node_id ` set (gd_nodes gd)"
  have ids: "node_id ` set nodes = ids"
    using ids_build_nodes [of rnd width height "gd_nodes gd"]
    by (metis ids_def nodes_def set_map)
  have known: "idx k \<noteq> None \<longleftrightarrow> k \<in> ids" for k
    using build_nodeIndices_None [of nodes k] by (simp add: idx_def ids)
  have at: "the (idx k) < length nodes \<and> node_id (nodes ! the (idx k)) = k" if "k \<in> ids" for k
  proof -
    from that known obtain i where "idx k = Some i" by auto
    then show ?thesis using build_nodeIndices_Some [of nodes k i] by (simp add: idx_def)
  qed
  have links: "build_links idx (gd_links gd) =
          map (\<lambda>l. \<lparr>pl_source = the (idx (link_source l)), pl_target = the (idx (link_target l)),
                    pl_value = num_or (link_value l) 2,
                    pl_type = str_or (link_type l) ''relationship''\<rparr>)
            (filter (\<lambda>l. link_source l \<in> ids \<and> link_target l \<in> ids) (gd_links gd))"
    by (simp only: build_links_filter known)
  have bounds: "\<forall>pl \<in> set (build_links idx (gd_links gd)).
                  pl_source pl < length nodes \<and> pl_target pl < length nodes"
    unfolding links using at by auto
  show ?thesis
    unfolding build_model_def Let_def ProcessedGraphData.simps
    using links bounds at ids_build_nodes [of rnd width height "gd_nodes gd"]
    by (simp add: nodes_def [symmetric] idx_def [symmetric] ids_def [symmetric])
qed

text \<open>The scenario of two nodes A and B, a link A-B and a link to the unknown node Z.\<close>

lemma build_nodes_ex:
  "build_nodes (\<lambda>_. 1 / 2) 800 600 (gd_nodes ex_graph) =
    [\<lparr>node_id = ''A'', node_size = 10, node_role = ''main'', node_description = None,
       node_color = ''#ff6b6b'', node_x = 400, node_y = 300, node_vx = 0, node_vy = 0\<rparr>,
     \<lparr>node_id = ''B'', node_size = 10, node_role = ''minor'', node_description = None,
       node_color = ''#ffd166'', node_x = 400, node_y = 300, node_vx = 0, node_vy = 0\<rparr>]"
  by (simp add: ex_graph_def build_nodes_def place_node_def GraphNode.extend_def
      ProcessedNode.fields_def getNodeColor_def toLowerCase_def lower_char_def Let_def)

lemma build_links_ex:
  "pd_links (build_model (\<lambda>_. 1 / 2) 800 600 ex_graph) =
     [\<lparr>pl_source = 0, pl_target = 1, pl_value = 5, pl_type = ''Friend''\<rparr>]"
  unfolding build_model_def Let_def ProcessedGraphData.simps build_nodes_ex
  by (simp add: ex_graph_def build_nodeIndices_def build_links_def resolve_link_def
      num_or_def str_or_def)

theorem build_model_links_resolved_witness:
  "pd_links (build_model (\<lambda>_. 1 / 2) 800 600 ex_graph) =
     [\<lparr>pl_source = 0, pl_target = 1, pl_value = 5, pl_type = ''Friend''\<rparr>]
   \<and> length (pd_nodes (build_model (\<lambda>_. 1 / 2) 800 600 ex_graph)) = 2
   \<and> \<lparr>pl_source = 0, pl_target = 1, pl_value = 5, pl_type = ''Friend''\<rparr>
         \<in> set (pd_links (build_model (\<lambda>_. 1 / 2) 800 600 ex_graph))
   \<and> link_source (hd (gd_links ex_graph)) \<in> node_id ` set (gd_nodes ex_graph)
   \<and> link_target (hd (gd_links ex_graph)) \<in> node_id ` set (gd_nodes ex_graph)"
proof -
  have ids: "link_source (hd (gd_links ex_graph)) \<in> node_id ` set (gd_nodes ex_graph)"
    "link_target (hd (gd_links ex_graph)) \<in> node_id ` set (gd_nodes ex_graph)"
    by (simp_all add: ex_graph_def)
  have len: "length (gd_nodes ex_graph) = 2" by (simp add: ex_graph_def)
  from build_model_links_resolved [of "\<lambda>_. 1 / 2" 800 600 ex_graph]
  have "map node_id (pd_nodes (build_model (\<lambda>_. 1 / 2) 800 600 ex_graph)) = map node_id (gd_nodes ex_graph)"
    unfolding Let_def by blast
  then have "length (pd_nodes (build_model (\<lambda>_. 1 / 2) 800 600 ex_graph)) = 2"
    using len by (metis length_map)
  then show ?thesis using ids by (simp add: build_links_ex)
qed

section \<open>Properties of the simulation tick\<close>

subsection \<open>Folds that update an array in place\<close>

lemma fold_keeps_length:
  assumes "\<And>a ns. length (f a ns) = length (ns :: 'b list)"
  shows "length (fold f xs ns) = length ns"
  using assms by (induction xs arbitrary: ns) simp_all

lemma fold_keeps_nth:
  assumes "\<And>a ns. f a ns ! d = (ns :: 'b list) ! d"
  shows "fold f xs ns ! d = ns ! d"
  using assms by (induction xs arbitrary: ns) simp_all

lemma length_repel: "length (repel ops i j ns) = length ns"
  by (simp add: repel_def Let_def)

lemma length_apply_forces: "length (apply_forces ops w h drag i ns) = length ns"
  by (simp add: apply_forces_def Let_def fold_keeps_length length_repel)

lemma length_spring: "length (spring ops drag l ns) = length ns"
  by (simp add: spring_def Let_def)

lemma length_integrate: "length (integrate ops w h drag i ns) = length ns"
  by (simp add: integrate_def Let_def)

lemma length_simulateForces: "length (simulateForces ops w h drag ls ns) = length ns"
  by (simp add: simulateForces_def Let_def fold_keeps_length length_apply_forces
      length_spring length_integrate)

lemma length_ticks: "length (ticks ops n w h drag ls ns) = length ns"
  by (induction n) (simp_all add: length_simulateForces)

subsection \<open>The dragged node is skipped\<close>

lemma repel_other: "i \<noteq> d \<Longrightarrow> repel ops i j ns ! d = ns ! d"
  by (simp add: repel_def Let_def)

lemma apply_forces_other: "i \<noteq> d \<Longrightarrow> apply_forces ops w h drag i ns ! d = ns ! d"
  by (simp add: apply_forces_def Let_def fold_keeps_nth repel_other)

lemma apply_forces_pinned: "apply_forces ops w h (Some d) i ns ! d = ns ! d"
  by (cases "i = d") (simp_all add: apply_forces_other, simp add: apply_forces_def)

lemma spring_pinned: "spring ops (Some d) l ns ! d = ns ! d"
  by (simp add: spring_def Let_def nth_list_update)

lemma integrate_other: "i \<noteq> k \<Longrightarrow> integrate ops w h drag i ns ! k = ns ! k"
  by (simp add: integrate_def Let_def)

lemma integrate_pinned: "integrate ops w h (Some d) i ns ! d = ns ! d"
  by (simp add: integrate_def Let_def nth_list_update)

lemma simulateForces_pinned: "simulateForces ops w h (Some d) ls ns ! d = ns ! d"
  by (simp add: simulateForces_def Let_def fold_keeps_nth apply_forces_pinned spring_pinned
      integrate_pinned)

lemma ticks_pinned: "ticks ops n w h (Some d) ls ns ! d = ns ! d"
  by (induction n) (simp_all add: simulateForces_pinned)

subsection \<open>The force loop\<close>

lemma position_velocity_update [simp]:
  "position (node\<lparr>node_vx := a, node_vy := b\<rparr>) = position node"
  "velocity (node\<lparr>node_vx := a, node_vy := b\<rparr>) = (a, b)"
  by (simp_all add: position_def velocity_def)

lemma fold_repel:
  assumes "i < length ns"
  shows "fold (repel ops i) [0..<m] ns =
     ns[i := (ns ! i)
        \<lparr>node_vx := fst (fold (repelled_by ops ns i) [0..<m] (velocity (ns ! i))),
         node_vy := snd (fold (repelled_by ops ns i) [0..<m] (velocity (ns ! i)))\<rparr>]"
proof (induction m)
  case 0
  show ?case by (simp add: velocity_def)
next
  case (Suc m)
  show ?case
  proof (cases "i = m")
    case True
    with Suc show ?thesis by (simp add: repel_def repelled_by_def)
  next
    case False
    with Suc assms show ?thesis
      by (simp add: repel_def Let_def add_pair_def repelled_by_def)
  qed
qed

lemma repelled_velocity_cong:
  assumes "length ms = length ns" and "\<forall>k < length ns. position (ms ! k) = position (ns ! k)"
    and "i < length ns"
  shows "repelled_velocity ops ms i v = repelled_velocity ops ns i v"
  unfolding repelled_velocity_def using assms
  by (intro fold_cong) (auto simp: repelled_by_def)

lemma apply_forces_node:
  assumes "i < length ns" and "drag \<noteq> Some i"
  shows "apply_forces ops w h drag i ns =
     ns[i := (ns ! i)
        \<lparr>node_vx := fst (repelled_velocity ops ns i (centred_velocity ops w h (ns ! i))),
         node_vy := snd (repelled_velocity ops ns i (centred_velocity ops w h (ns ! i)))\<rparr>]"
proof -
  define c where "c = (ns ! i)
      \<lparr>node_vx := fst (centred_velocity ops w h (ns ! i)),
       node_vy := snd (centred_velocity ops w h (ns ! i))\<rparr>"
  define cs where "cs = ns[i := c]"
  have len: "length cs = length ns" and at: "cs ! i = c"
    using assms(1) by (simp_all add: cs_def)
  have pos: "\<forall>k < length ns. position (cs ! k) = position (ns ! k)"
    using assms(1) by (auto simp: cs_def c_def nth_list_update)
  have af: "apply_forces ops w h drag i ns = fold (repel ops i) [0..<length cs] cs"
    using assms(2) by (simp add: apply_forces_def Let_def cs_def c_def centred_velocity_def)
  have i: "i < length cs" using assms(1) len by simp
  have v: "velocity c = centred_velocity ops w h (ns ! i)"
    by (simp add: c_def)
  have rv: "repelled_velocity ops cs i (velocity c)
      = repelled_velocity ops ns i (centred_velocity ops w h (ns ! i))"
    unfolding v by (rule repelled_velocity_cong [OF len pos assms(1)])
  have "fold (repel ops i) [0..<length cs] cs =
     cs[i := (cs ! i)
        \<lparr>node_vx := fst (repelled_velocity ops cs i (velocity (cs ! i))),
         node_vy := snd (repelled_velocity ops cs i (velocity (cs ! i)))\<rparr>]"
    unfolding repelled_velocity_def by (rule fold_repel [OF i])
  then show ?thesis
    unfolding af at rv by (simp add: cs_def c_def)
qed


lemma force_pass:
  assumes "m \<le> length ns"
  shows "length (fold (apply_forces ops w h drag) [0..<m] ns) = length ns
    \<and> (\<forall>k < length ns. fold (apply_forces ops w h drag) [0..<m] ns ! k =
          (if k < m \<and> drag \<noteq> Some k
           then (ns ! k)
             \<lparr>node_vx := fst (repelled_velocity ops ns k (centred_velocity ops w h (ns ! k))),
              node_vy := snd (repelled_velocity ops ns k (centred_velocity ops w h (ns ! k)))\<rparr>
           else ns ! k))"
  using assms
proof (induction m)
  case 0
  show ?case by simp
next
  case (Suc m)
  define ms where "ms = fold (apply_forces ops w h drag) [0..<m] ns"
  from Suc have len: "length ms = length ns"
    and at: "\<forall>k < length ns. ms ! k =
          (if k < m \<and> drag \<noteq> Some k
           then (ns ! k)
             \<lparr>node_vx := fst (repelled_velocity ops ns k (centred_velocity ops w h (ns ! k))),
              node_vy := snd (repelled_velocity ops ns k (centred_velocity ops w h (ns ! k)))\<rparr>
           else ns ! k)"
    by (simp_all add: ms_def)
  have m: "m < length ns" using Suc.prems by simp
  have step: "fold (apply_forces ops w h drag) [0..<Suc m] ns = apply_forces ops w h drag m ms"
    by (simp add: ms_def)
  have same: "ms ! m = ns ! m" using at m by simp
  have pos: "\<forall>k < length ns. position (ms ! k) = position (ns ! k)"
    using at by simp
  show ?case
  proof (cases "drag = Some m")
    case True
    then have "apply_forces ops w h drag m ms = ms" by (simp add: apply_forces_def)
    with len at True show ?thesis unfolding step by (auto simp: less_Suc_eq)
  next
    case False
    have mm: "m < length ms" using m len by simp
    have rv: "repelled_velocity ops ms m (centred_velocity ops w h (ns ! m))
        = repelled_velocity ops ns m (centred_velocity ops w h (ns ! m))"
      by (rule repelled_velocity_cong [OF len pos m])
    have "apply_forces ops w h drag m ms =
       ms[m := (ns ! m)
        \<lparr>node_vx := fst (repelled_velocity ops ns m (centred_velocity ops w h (ns ! m))),
         node_vy := snd (repelled_velocity ops ns m (centred_velocity ops w h (ns ! m)))\<rparr>]"
      unfolding apply_forces_node [OF mm False] same rv ..
    with len at False m show ?thesis
      unfolding step by (auto simp: less_Suc_eq nth_list_update)
  qed
qed

subsection \<open>The link loop\<close>

lemma spring_position:
  "k < length ns \<Longrightarrow> position (spring ops drag l ns ! k) = position (ns ! k)"
  by (simp add: spring_def Let_def nth_list_update position_def)

lemma spring_node:
  assumes "k < length ns" and "drag \<noteq> Some k"
  shows "spring ops drag l ns ! k =
     (ns ! k)\<lparr>node_vx := fst (sprung_by ops ns k l (velocity (ns ! k))),
               node_vy := snd (sprung_by ops ns k l (velocity (ns ! k)))\<rparr>"
proof (cases "pl_source l \<ge> length ns \<or> pl_target l \<ge> length ns")
  case True
  then show ?thesis by (auto simp: spring_def sprung_by_def velocity_def)
next
  case False
  then have b: "pl_source l < length ns" "pl_target l < length ns" by simp_all
  show ?thesis
  proof (cases "pl_source l = k")
    case True
    note src = this
    show ?thesis
    proof (cases "pl_target l = k")
      case True
      with src b assms show ?thesis
        by (simp add: spring_def sprung_by_def Let_def add_pair_def sub_pair_def velocity_def)
    next
      case False
      with src b assms show ?thesis
        by (simp add: spring_def sprung_by_def Let_def add_pair_def sub_pair_def velocity_def)
    qed
  next
    case False
    note src = this
    show ?thesis
    proof (cases "pl_target l = k")
      case True
      with src b assms show ?thesis
        by (simp add: spring_def sprung_by_def Let_def add_pair_def sub_pair_def velocity_def
            position_def)
    next
      case False
      with src b assms show ?thesis
        by (simp add: spring_def sprung_by_def Let_def velocity_def)
    qed
  qed
qed

lemma sprung_by_cong:
  assumes "length ms = length ns" and "\<forall>k < length ns. position (ms ! k) = position (ns ! k)"
  shows "sprung_by ops ms i l = sprung_by ops ns i l"
  using assms by (intro ext) (simp add: sprung_by_def Let_def)

lemma spring_pass:
  assumes "k < length ns" and "drag \<noteq> Some k"
  shows "fold (spring ops drag) ls ns ! k =
     (ns ! k)\<lparr>node_vx := fst (sprung_velocity ops ns k ls (velocity (ns ! k))),
               node_vy := snd (sprung_velocity ops ns k ls (velocity (ns ! k)))\<rparr>"
  using assms(1)
proof (induction ls arbitrary: ns)
  case Nil
  show ?case by (simp add: sprung_velocity_def velocity_def)
next
  case (Cons l ls)
  define ms where "ms = spring ops drag l ns"
  have len: "length ms = length ns" by (simp add: ms_def length_spring)
  have pos: "\<forall>j < length ns. position (ms ! j) = position (ns ! j)"
    by (simp add: ms_def spring_position)
  have k: "k < length ms" using Cons.prems len by simp
  have node: "ms ! k =
     (ns ! k)\<lparr>node_vx := fst (sprung_by ops ns k l (velocity (ns ! k))),
               node_vy := snd (sprung_by ops ns k l (velocity (ns ! k)))\<rparr>"
    unfolding ms_def by (rule spring_node [OF Cons.prems assms(2)])
  have sv: "sprung_velocity ops ms k ls v = sprung_velocity ops ns k ls v" for v
    unfolding sprung_velocity_def
    by (rule fold_cong) (simp_all add: sprung_by_cong [OF len pos])
  have "fold (spring ops drag) (l # ls) ns ! k = fold (spring ops drag) ls ms ! k"
    by (simp add: ms_def)
  also have "\<dots> = (ms ! k)\<lparr>node_vx := fst (sprung_velocity ops ms k ls (velocity (ms ! k))),
               node_vy := snd (sprung_velocity ops ms k ls (velocity (ms ! k)))\<rparr>"
    by (rule Cons.IH [OF k])
  also have "\<dots> = (ns ! k)\<lparr>node_vx := fst (sprung_velocity ops ns k (l # ls) (velocity (ns ! k))),
               node_vy := snd (sprung_velocity ops ns k (l # ls) (velocity (ns ! k)))\<rparr>"
    unfolding sv node by (simp add: sprung_velocity_def)
  finally show ?case .
qed

subsection \<open>The integration loop\<close>

lemma integrate_pass:
  assumes "m \<le> length ns"
  shows "length (fold (integrate ops w h drag) [0..<m] ns) = length ns
    \<and> (\<forall>k < length ns. fold (integrate ops w h drag) [0..<m] ns ! k =
          (if k < m \<and> drag \<noteq> Some k
           then (ns ! k)
             \<lparr>node_x := op_max ops (op_lit ops 20)
                 (op_min ops (op_sub ops w (op_lit ops 20))
                    (op_add ops (node_x (ns ! k)) (node_vx (ns ! k)))),
              node_y := op_max ops (op_lit ops 20)
                 (op_min ops (op_sub ops h (op_lit ops 20))
                    (op_add ops (node_y (ns ! k)) (node_vy (ns ! k)))),
              node_vx := op_mul ops (node_vx (ns ! k)) (op_lit ops 0.9),
              node_vy := op_mul ops (node_vy (ns ! k)) (op_lit ops 0.9)\<rparr>
           else ns ! k))"
  using assms
proof (induction m)
  case 0
  show ?case by simp
next
  case (Suc m)
  then have m: "m < length ns" by simp
  from Suc show ?case
    by (auto simp: integrate_def Let_def nth_list_update less_Suc_eq)
qed

subsection \<open>One tick\<close>

lemma simulateForces_node:
  assumes "i < length nodes" and "drag \<noteq> Some i"
  shows "simulateForces ops w h drag links nodes ! i =
     (let v = sprung_velocity ops nodes i links
                (repelled_velocity ops nodes i (centred_velocity ops w h (nodes ! i)))
      in (nodes ! i)
           \<lparr>node_x := op_max ops (op_lit ops 20)
               (op_min ops (op_sub ops w (op_lit ops 20)) (op_add ops (node_x (nodes ! i)) (fst v))),
            node_y := op_max ops (op_lit ops 20)
               (op_min ops (op_sub ops h (op_lit ops 20)) (op_add ops (node_y (nodes ! i)) (snd v))),
            node_vx := op_mul ops (fst v) (op_lit ops 0.9),
            node_vy := op_mul ops (snd v) (op_lit ops 0.9)\<rparr>)"
proof -
  define ns1 where "ns1 = fold (apply_forces ops w h drag) [0..<length nodes] nodes"
  define ns2 where "ns2 = fold (spring ops drag) links ns1"
  note fp = force_pass [of "length nodes" nodes ops w h drag, OF order_refl, folded ns1_def]
  from fp have len1: "length ns1 = length nodes" by blast
  from fp assms have at1: "ns1 ! i = (nodes ! i)
             \<lparr>node_vx := fst (repelled_velocity ops nodes i (centred_velocity ops w h (nodes ! i))),
              node_vy := snd (repelled_velocity ops nodes i (centred_velocity ops w h (nodes ! i)))\<rparr>"
    by simp
  from fp have pos1: "\<forall>k < length nodes. position (ns1 ! k) = position (nodes ! k)"
    by simp
  have len2: "length ns2 = length nodes"
    by (simp add: ns2_def len1 fold_keeps_length length_spring)
  have i1: "i < length ns1" using assms(1) len1 by simp
  have sv: "sprung_velocity ops ns1 i links v = sprung_velocity ops nodes i links v" for v
    unfolding sprung_velocity_def
    by (rule fold_cong) (simp_all add: sprung_by_cong [OF len1 pos1])
  have at2: "ns2 ! i = (nodes ! i)
     \<lparr>node_vx := fst (sprung_velocity ops nodes i links
         (repelled_velocity ops nodes i (centred_velocity ops w h (nodes ! i)))),
      node_vy := snd (sprung_velocity ops nodes i links
         (repelled_velocity ops nodes i (centred_velocity ops w h (nodes ! i))))\<rparr>"
    unfolding ns2_def spring_pass [OF i1 assms(2)] sv at1 by simp
  note ip = integrate_pass [of "length ns2" ns2 ops w h drag, OF order_refl]
  have sf: "simulateForces ops w h drag links nodes
      = fold (integrate ops w h drag) [0..<length ns2] ns2"
    by (simp add: simulateForces_def Let_def ns1_def ns2_def)
  from ip assms len2 have "fold (integrate ops w h drag) [0..<length ns2] ns2 ! i =
       (ns2 ! i)
             \<lparr>node_x := op_max ops (op_lit ops 20)
                 (op_min ops (op_sub ops w (op_lit ops 20))
                    (op_add ops (node_x (ns2 ! i)) (node_vx (ns2 ! i)))),
              node_y := op_max ops (op_lit ops 20)
                 (op_min ops (op_sub ops h (op_lit ops 20))
                    (op_add ops (node_y (ns2 ! i)) (node_vy (ns2 ! i)))),
              node_vx := op_mul ops (node_vx (ns2 ! i)) (op_lit ops 0.9),
              node_vy := op_mul ops (node_vy (ns2 ! i)) (op_lit ops 0.9)\<rparr>"
    by simp
  then show ?thesis
    unfolding sf at2 Let_def by simp
qed

subsection \<open>The tick on example nodes\<close>

lemma sqrt_quarter: "sqrt (1 / 4) = 1 / 2"
  by (rule real_sqrt_unique) (simp_all add: power2_eq_square)

lemma sqrt_10000: "sqrt 10000 = 100"
  by (rule real_sqrt_unique) simp_all

lemma exact_forces_pair:
  "sprung_velocity exact_ops js_ex_nodes 0 js_ex_links
      (repelled_velocity exact_ops js_ex_nodes 0
         (centred_velocity exact_ops (Fin 800) (Fin 600) (js_ex_nodes ! 0))) = (Fin (- 0.1), Fin 0)"
  by (simp add: sprung_velocity_def sprung_by_def repelled_velocity_def repelled_by_def
        centred_velocity_def spring_force_def repulsion_def add_pair_def sub_pair_def
        or_else_def position_def Let_def exact_ops_def js_ex_nodes_def js_ex_links_def
        js_node_def js_sub_def js_mul_def js_div_def js_min_def js_falsy_def sqrt_10000)

subsection \<open>The boundary clamp on JavaScript numbers\<close>

lemma js_clamp:
  assumes "js_le (Fin 20) hi"
  shows "js_max (Fin 20) (js_min hi v) = NaN
       \<or> (js_le (Fin 20) (js_max (Fin 20) (js_min hi v)) \<and> js_le (js_max (Fin 20) (js_min hi v)) hi)"
  using assms by (cases hi; cases v) (auto simp: js_max_def js_min_def)

lemma simulateForces_position:
  assumes "i < length nodes" and "drag \<noteq> Some i"
  shows "\<exists>a b. node_x (simulateForces ops w h drag links nodes ! i)
                 = op_max ops (op_lit ops 20) (op_min ops (op_sub ops w (op_lit ops 20)) a)
             \<and> node_y (simulateForces ops w h drag links nodes ! i)
                 = op_max ops (op_lit ops 20) (op_min ops (op_sub ops h (op_lit ops 20)) b)"
  unfolding simulateForces_node [OF assms] Let_def by auto

lemma exact_tick_narrow:
  "node_x (ticks exact_ops 1 (Fin 30) (Fin 600) None [] [js_node ''A'' 15 300] ! 0) = Fin 20"
proof -
  have "node_x (simulateForces exact_ops (Fin 30) (Fin 600) None [] [js_node ''A'' 15 300] ! 0) = Fin 20"
    by (subst simulateForces_node)
      (simp_all add: Let_def sprung_velocity_def repelled_velocity_def repelled_by_def
        centred_velocity_def exact_ops_def js_node_def js_sub_def js_mul_def js_div_def
        js_max_def js_min_def)
  then show ?thesis by simp
qed

text \<open>
  Claim C3 as stated, for every viewport: it fails in a viewport narrower than 40, where
  \<open>width - 20 < 20\<close> and the clamp \<^verbatim>\<open>Math.max(20, Math.min(width - 20, x))\<close> gives 20. A
  single node at x = 15 in a viewport 30 wide is at x = 20 after one tick, beyond
  \<open>width - 20 = 10\<close>.
\<close>

theorem ticks_clamped_counterexample:
  "\<not> js_le (node_x (ticks exact_ops 1 (Fin 30) (Fin 600) None [] [js_node ''A'' 15 300] ! 0))
        (op_sub exact_ops (Fin 30) (Fin 20))"
  unfolding exact_tick_narrow by (simp add: exact_ops_def js_sub_def)

text \<open>
  Claim C3, amended. For every arithmetic on JavaScript numbers whose maximum and minimum
  are \<^verbatim>\<open>Math.max\<close> and \<^verbatim>\<open>Math.min\<close>, in a viewport where the computed \<open>width - 20\<close> and
  \<open>height - 20\<close> are at least 20, for every node array, every link list and every number
  \<open>n \<ge> 1\<close> of ticks: after the \<open>n\<close> ticks each coordinate of every node that is not the
  dragged one is NaN or lies in \<open>[20, width - 20]\<close>, respectively \<open>[20, height - 20]\<close>.
\<close>

theorem ticks_clamped:
  assumes "op_max ops = js_max" and "op_min ops = js_min" and "op_lit ops 20 = Fin 20"
    and "js_le (Fin 20) (op_sub ops width (Fin 20))"
    and "js_le (Fin 20) (op_sub ops height (Fin 20))"
    and "i < length nodes" and "drag \<noteq> Some i" and "1 \<le> n"
  shows "(node_x (ticks ops n width height drag links nodes ! i) = NaN
          \<or> (js_le (Fin 20) (node_x (ticks ops n width height drag links nodes ! i))
              \<and> js_le (node_x (ticks ops n width height drag links nodes ! i))
                   (op_sub ops width (Fin 20))))
       \<and> (node_y (ticks ops n width height drag links nodes ! i) = NaN
          \<or> (js_le (Fin 20) (node_y (ticks ops n width height drag links nodes ! i))
              \<and> js_le (node_y (ticks ops n width height drag links nodes ! i))
                   (op_sub ops height (Fin 20))))"
proof -
  from \<open>1 \<le> n\<close> obtain m where n: "n = Suc m" by (cases n) simp_all
  have "i < length (ticks ops m width height drag links nodes)"
    using assms(6) by (simp add: length_ticks)
  from simulateForces_position [OF this assms(7), of ops width height links]
  obtain a b where
    "node_x (ticks ops n width height drag links nodes ! i)
       = js_max (Fin 20) (js_min (op_sub ops width (Fin 20)) a)"
    "node_y (ticks ops n width height drag links nodes ! i)
       = js_max (Fin 20) (js_min (op_sub ops height (Fin 20)) b)"
    unfolding n ticks.simps assms(1,2,3) by blast
  then show ?thesis
    using js_clamp [OF assms(4), of a] js_clamp [OF assms(5), of b] by simp
qed

lemma exact_tick_pair:
  "node_x (simulateForces exact_ops (Fin 800) (Fin 600) None js_ex_links js_ex_nodes ! 0) = Fin 399.9"
  "node_y (simulateForces exact_ops (Fin 800) (Fin 600) None js_ex_links js_ex_nodes ! 0) = Fin 300"
proof -
  have i: "0 < length js_ex_nodes" "None \<noteq> Some (0::nat)" by (simp_all add: js_ex_nodes_def)
  show "node_x (simulateForces exact_ops (Fin 800) (Fin 600) None js_ex_links js_ex_nodes ! 0) = Fin 399.9"
    "node_y (simulateForces exact_ops (Fin 800) (Fin 600) None js_ex_links js_ex_nodes ! 0) = Fin 300"
    unfolding simulateForces_node [OF i] Let_def exact_forces_pair
    by (simp_all add: exact_ops_def js_ex_nodes_def js_node_def js_sub_def js_max_def js_min_def)
qed

theorem ticks_clamped_witness:
  "op_max exact_ops = js_max \<and> op_min exact_ops = js_min \<and> op_lit exact_ops 20 = Fin 20
   \<and> js_le (Fin 20) (op_sub exact_ops (Fin 800) (Fin 20))
   \<and> js_le (Fin 20) (op_sub exact_ops (Fin 600) (Fin 20))
   \<and> 0 < length js_ex_nodes \<and> None \<noteq> Some (0::nat) \<and> (1::nat) \<le> 1
   \<and> node_x (ticks exact_ops 1 (Fin 800) (Fin 600) None js_ex_links js_ex_nodes ! 0) = Fin 399.9
   \<and> js_le (Fin 20) (node_x (ticks exact_ops 1 (Fin 800) (Fin 600) None js_ex_links js_ex_nodes ! 0))
   \<and> js_le (node_x (ticks exact_ops 1 (Fin 800) (Fin 600) None js_ex_links js_ex_nodes ! 0))
        (op_sub exact_ops (Fin 800) (Fin 20))"
proof -
  have h: "op_max exact_ops = js_max" "op_min exact_ops = js_min" "op_lit exact_ops 20 = Fin 20"
    "js_le (Fin 20) (op_sub exact_ops (Fin 800) (Fin 20))"
    "js_le (Fin 20) (op_sub exact_ops (Fin 600) (Fin 20))"
    "0 < length js_ex_nodes" "None \<noteq> Some (0::nat)" "(1::nat) \<le> 1"
    by (simp_all add: exact_ops_def js_sub_def js_ex_nodes_def)
  have x: "node_x (ticks exact_ops 1 (Fin 800) (Fin 600) None js_ex_links js_ex_nodes ! 0) = Fin 399.9"
    by (simp add: exact_tick_pair)
  have nn: "Fin 399.9 \<noteq> NaN" by simp
  from ticks_clamped [OF h, of js_ex_links, THEN conjunct1] nn
  have "js_le (Fin 20) (node_x (ticks exact_ops 1 (Fin 800) (Fin 600) None js_ex_links js_ex_nodes ! 0))
      \<and> js_le (node_x (ticks exact_ops 1 (Fin 800) (Fin 600) None js_ex_links js_ex_nodes ! 0))
           (op_sub exact_ops (Fin 800) (Fin 20))"
    unfolding x by blast
  with h x show ?thesis by blast
qed

subsection \<open>Nearly coincident nodes\<close>

lemma huge_gt: "1024 \<le> huge"
proof -
  have "(2::real) ^ 10 \<le> 2 ^ 1024" by (rule power_increasing) simp_all
  then show ?thesis by (simp add: huge_def)
qed

lemma huge_le: "huge \<le> 10 ^ 320"
proof -
  have "((2::real) ^ 16) ^ 64 \<le> (10 ^ 5) ^ 64" by (rule power_mono) simp_all
  then have "(2::real) ^ (16 * 64) \<le> 10 ^ (5 * 64)" by (simp only: power_mult)
  then show ?thesis by (simp add: huge_def)
qed

lemma overflow_Fin: "- huge < r \<Longrightarrow> r < huge \<Longrightarrow> overflow (Fin r) = Fin r"
  by (simp add: overflow_def)

lemma js_add_NaN: "js_add a NaN = NaN"
  by (cases a) simp_all

lemma overflow_repulsion:
  assumes "0 < t" and "t \<le> 1" and "huge \<le> 1000 / (t * t)"
  shows "repulsion overflow_ops (Fin t, Fin 300) (Fin 0, Fin 300) = (PosInf, NaN)"
proof -
  have tt: "t * t \<le> 1" using assms(1,2) by (simp add: mult_le_one)
  have pos: "0 < t * t" using assms(1) by simp
  have b: "- huge < t" "t < huge" "- huge < t * t" "t * t < huge" "- huge < 0" "0 < huge"
    "- huge < 1" "1 < huge"
    using huge_gt assms(1,2) tt pos by linarith+
  have dx: "op_sub overflow_ops (Fin t) (Fin 0) = Fin t"
    and dy: "op_sub overflow_ops (Fin 300) (Fin 300) = Fin 0"
    using b by (simp_all add: overflow_ops_def js_sub_def overflow_Fin)
  have sq: "op_mul overflow_ops (Fin t) (Fin t) = Fin (t * t)"
    and z: "op_mul overflow_ops (Fin 0) (Fin 0) = Fin 0"
    using b by (simp_all add: overflow_ops_def js_mul_def overflow_Fin)
  have sum: "op_add overflow_ops (Fin (t * t)) (Fin 0) = Fin (t * t)"
    using b by (simp add: overflow_ops_def overflow_Fin)
  have root: "op_sqrt overflow_ops (Fin (t * t)) = Fin t"
    using assms(1) pos by (simp add: overflow_ops_def)
  have dist: "or_else overflow_ops (Fin t) (op_lit overflow_ops 1) = Fin t"
    using assms(1) by (simp add: or_else_def overflow_ops_def js_falsy_def)
  have m: "op_div overflow_ops (op_lit overflow_ops 1000) (Fin (t * t)) = PosInf"
    using assms(3) pos by (simp add: overflow_ops_def js_div_def overflow_def)
  have ux: "op_div overflow_ops (Fin t) (Fin t) = Fin 1"
    and uy: "op_div overflow_ops (Fin 0) (Fin t) = Fin 0"
    using assms(1) b by (simp_all add: overflow_ops_def js_div_def overflow_Fin)
  have fx: "op_mul overflow_ops (Fin 1) PosInf = PosInf"
    and fy: "op_mul overflow_ops (Fin 0) PosInf = NaN"
    by (simp_all add: overflow_ops_def js_mul_def overflow_def)
  show ?thesis
    unfolding repulsion_def Let_def fst_conv snd_conv dx dy sq z sum root dist m ux uy fx fy ..
qed

text \<open>
  Two nodes \<open>10^-160\<close> apart in a viewport of 800 by 600: the repulsion overflows to an
  infinity, the y component of the force is 0 times that infinity, and the clamp passes the
  NaN on. After one tick the y coordinate of the first node is NaN.
\<close>

lemma overflow_tick_nan:
  "node_y (simulateForces overflow_ops (Fin 800) (Fin 600) None [] js_tiny_nodes ! 0) = NaN"
proof -
  have t: "(0::real) < 1 / 10 ^ 160" "(1 / 10 ^ 160 :: real) \<le> 1" by simp_all
  have "(1 / 10 ^ 160) * (1 / 10 ^ 160) = (1 / 10 ^ 320 :: real)"
    by (simp only: power_add [symmetric] times_divide_times_eq mult_1) simp
  then have "1000 / ((1 / 10 ^ 160) * (1 / 10 ^ 160)) = (1000 * 10 ^ 320 :: real)"
    by (simp only: divide_divide_eq_right mult_1 div_by_1)
  moreover have "(10::real) ^ 320 \<le> 1000 * 10 ^ 320"
    by (simp only: mult_le_cancel_right1) simp
  ultimately have big: "huge \<le> 1000 / ((1 / 10 ^ 160) * (1 / 10 ^ 160))"
    using huge_le by linarith
  note r = overflow_repulsion [OF t big]
  have i: "0 < length js_tiny_nodes" "None \<noteq> Some (0::nat)" by (simp_all add: js_tiny_nodes_def)
  have p: "position (js_tiny_nodes ! 0) = (Fin (1 / 10 ^ 160), Fin 300)"
    "position (js_tiny_nodes ! 1) = (Fin 0, Fin 300)"
    by (simp_all only: js_tiny_nodes_def nth_Cons_0 One_nat_def nth_Cons_Suc position_def js_node_def
        ProcessedNode.simps)
  have l: "[0..<length js_tiny_nodes] = [0, 1]"
    by (simp add: js_tiny_nodes_def upt_rec)
  have a: "op_add overflow_ops c NaN = NaN" for c
    by (simp add: overflow_ops_def js_add_NaN overflow_def)
  have mn: "op_min overflow_ops c NaN = NaN" and mx: "op_max overflow_ops c NaN = NaN" for c
    by (simp_all add: overflow_ops_def js_min_def js_max_def)
  have r0: "repelled_by overflow_ops js_tiny_nodes 0 0 c = c" for c
    by (simp only: repelled_by_def refl if_True)
  have r1: "snd (repelled_by overflow_ops js_tiny_nodes 0 1 c) = NaN" for c
    unfolding repelled_by_def p r add_pair_def snd_conv a by (simp only: zero_neq_one if_False snd_conv)
  have v: "snd (sprung_velocity overflow_ops js_tiny_nodes 0 []
      (repelled_velocity overflow_ops js_tiny_nodes 0 c)) = NaN" for c
    unfolding sprung_velocity_def repelled_velocity_def l
    by (simp only: fold.simps comp_def id_def r0 r1)
  show ?thesis
    unfolding simulateForces_node [OF i] Let_def
    by (simp add: v a mn mx)
qed

subsection \<open>The pairwise repulsion\<close>

lemma repulsion_floor:
  assumes "op_falsy ops = js_falsy" and "op_max ops = js_max" and "op_lit ops 1 = Fin 1"
    and "js_le (Fin 1)
           (op_sqrt ops (op_add ops
              (op_mul ops (op_sub ops (fst p) (fst q)) (op_sub ops (fst p) (fst q)))
              (op_mul ops (op_sub ops (snd p) (snd q)) (op_sub ops (snd p) (snd q)))))"
  shows "repulsion ops p q = spec_repulsion ops p q"
proof -
  define d where "d = op_sqrt ops (op_add ops
              (op_mul ops (op_sub ops (fst p) (fst q)) (op_sub ops (fst p) (fst q)))
              (op_mul ops (op_sub ops (snd p) (snd q)) (op_sub ops (snd p) (snd q))))"
  from assms(4) have one: "js_le (Fin 1) d" by (simp add: d_def)
  then have "\<not> js_falsy d" by (cases d) (auto simp: js_falsy_def)
  then have a: "or_else ops d (Fin 1) = d" by (simp add: or_else_def assms(1))
  from one have b: "js_max d (Fin 1) = d" by (cases d) (auto simp: js_max_def)
  show ?thesis
    unfolding repulsion_def spec_repulsion_def Let_def assms(2,3) d_def [symmetric] a b ..
qed

lemma exact_tick_close:
  "node_vx (simulateForces exact_ops (Fin 801) (Fin 600) None [] js_close_nodes ! 0) = Fin 3600"
proof -
  have v: "sprung_velocity exact_ops js_close_nodes 0 []
      (repelled_velocity exact_ops js_close_nodes 0
         (centred_velocity exact_ops (Fin 801) (Fin 600) (js_close_nodes ! 0))) = (Fin 4000, Fin 0)"
    by (simp add: sprung_velocity_def repelled_velocity_def repelled_by_def
        centred_velocity_def repulsion_def add_pair_def
        or_else_def position_def Let_def exact_ops_def js_close_nodes_def
        js_node_def js_sub_def js_mul_def js_div_def js_falsy_def sqrt_quarter)
  have i: "0 < length js_close_nodes" "None \<noteq> Some (0::nat)" by (simp_all add: js_close_nodes_def)
  show ?thesis
    unfolding simulateForces_node [OF i] Let_def v
    by (simp add: exact_ops_def js_mul_def)
qed

lemma spec_tick_close:
  "op_mul exact_ops
     (fst (add_pair exact_ops
        (centred_velocity exact_ops (Fin 801) (Fin 600) (js_close_nodes ! 0))
        (spec_repulsion exact_ops (position (js_close_nodes ! 0)) (position (js_close_nodes ! 1)))))
     (Fin 0.9) = Fin 900"
  by (simp add: centred_velocity_def spec_repulsion_def add_pair_def position_def Let_def
      exact_ops_def js_close_nodes_def js_node_def js_sub_def js_mul_def js_div_def js_max_def
      sqrt_quarter)

text \<open>
  Claim C2 as stated: two nodes at rest half a unit apart, centred in a viewport of 801 by
  600, no links. The tick leaves the first node with the velocity 0.9 \<times> 4000 = 3600 along
  x, where the repulsion with the distance floored at 1 would leave 0.9 \<times> 1000 = 900.
\<close>

theorem repel_floor_counterexample:
  "node_vx (simulateForces exact_ops (Fin 801) (Fin 600) None [] js_close_nodes ! 0)
     \<noteq> op_mul exact_ops
         (fst (add_pair exact_ops
            (centred_velocity exact_ops (Fin 801) (Fin 600) (js_close_nodes ! 0))
            (spec_repulsion exact_ops (position (js_close_nodes ! 0)) (position (js_close_nodes ! 1)))))
         (Fin 0.9)"
  unfolding exact_tick_close spec_tick_close by simp

text \<open>
  Claim C2, amended. For every arithmetic on JavaScript numbers, in every tick the velocity
  of a node \<open>i\<close> that is not dragged becomes 0.9 times the sum, taken in this order, of its
  velocity, the centering term, the repulsion by every other node \<open>j\<close> in index order and
  the forces of the links at \<open>i\<close>, all at the positions the tick starts from. The repulsion
  by \<open>j\<close> is unit(\<Delta>position) \<times> (1000 / dist^2), where dist is the computed distance,
  replaced by 1 only when that is 0 or NaN. It is the specification's formula whenever the
  computed distance is at least 1.
\<close>

theorem tick_velocity:
  fixes ops :: "jsnum Arith"
  assumes "i < length nodes" and "drag \<noteq> Some i"
  shows "velocity (simulateForces ops width height drag links nodes ! i) =
           (let v = sprung_velocity ops nodes i links
                      (repelled_velocity ops nodes i
                         (centred_velocity ops width height (nodes ! i)))
            in (op_mul ops (fst v) (op_lit ops 0.9), op_mul ops (snd v) (op_lit ops 0.9)))
       \<and> (\<forall>v. repelled_velocity ops nodes i v =
                fold (\<lambda>j v. if i = j then v
                            else add_pair ops v
                                   (repulsion ops (position (nodes ! i)) (position (nodes ! j))))
                  [0..<length nodes] v)
       \<and> (\<forall>p q. op_falsy ops = js_falsy \<longrightarrow>
             repulsion ops p q =
               (let dx = op_sub ops (fst p) (fst q);
                    dy = op_sub ops (snd p) (snd q);
                    d = op_sqrt ops (op_add ops (op_mul ops dx dx) (op_mul ops dy dy));
                    dist = (if d = Fin 0 \<or> d = NaN then op_lit ops 1 else d);
                    m = op_div ops (op_lit ops 1000) (op_mul ops dist dist)
                in (op_mul ops (op_div ops dx dist) m, op_mul ops (op_div ops dy dist) m)))
       \<and> (\<forall>p q. op_falsy ops = js_falsy \<and> op_max ops = js_max \<and> op_lit ops 1 = Fin 1
                \<and> js_le (Fin 1)
                     (op_sqrt ops (op_add ops
                        (op_mul ops (op_sub ops (fst p) (fst q)) (op_sub ops (fst p) (fst q)))
                        (op_mul ops (op_sub ops (snd p) (snd q)) (op_sub ops (snd p) (snd q)))))
                \<longrightarrow> repulsion ops p q = spec_repulsion ops p q)"
proof -
  have a: "velocity (simulateForces ops width height drag links nodes ! i) =
           (let v = sprung_velocity ops nodes i links
                      (repelled_velocity ops nodes i
                         (centred_velocity ops width height (nodes ! i)))
            in (op_mul ops (fst v) (op_lit ops 0.9), op_mul ops (snd v) (op_lit ops 0.9)))"
    unfolding simulateForces_node [OF assms] Let_def by (simp add: velocity_def)
  have b: "\<forall>v. repelled_velocity ops nodes i v =
                fold (\<lambda>j v. if i = j then v
                            else add_pair ops v
                                   (repulsion ops (position (nodes ! i)) (position (nodes ! j))))
                  [0..<length nodes] v"
    by (simp add: repelled_velocity_def repelled_by_def [abs_def])
  have c: "\<forall>p q. op_falsy ops = js_falsy \<longrightarrow>
             repulsion ops p q =
               (let dx = op_sub ops (fst p) (fst q);
                    dy = op_sub ops (snd p) (snd q);
                    d = op_sqrt ops (op_add ops (op_mul ops dx dx) (op_mul ops dy dy));
                    dist = (if d = Fin 0 \<or> d = NaN then op_lit ops 1 else d);
                    m = op_div ops (op_lit ops 1000) (op_mul ops dist dist)
                in (op_mul ops (op_div ops dx dist) m, op_mul ops (op_div ops dy dist) m))"
    by (simp add: repulsion_def or_else_def js_falsy_def Let_def)
  have d: "\<forall>p q. op_falsy ops = js_falsy \<and> op_max ops = js_max \<and> op_lit ops 1 = Fin 1
                \<and> js_le (Fin 1)
                     (op_sqrt ops (op_add ops
                        (op_mul ops (op_sub ops (fst p) (fst q)) (op_sub ops (fst p) (fst q)))
                        (op_mul ops (op_sub ops (snd p) (snd q)) (op_sub ops (snd p) (snd q)))))
                \<longrightarrow> repulsion ops p q = spec_repulsion ops p q"
    using repulsion_floor by blast
  from a b c d show ?thesis by blast
qed


lemma exact_distance_pair:
  "op_sqrt exact_ops (op_add exact_ops
      (op_mul exact_ops (op_sub exact_ops (fst (position (js_ex_nodes ! 0))) (fst (position (js_ex_nodes ! 1))))
                        (op_sub exact_ops (fst (position (js_ex_nodes ! 0))) (fst (position (js_ex_nodes ! 1)))))
      (op_mul exact_ops (op_sub exact_ops (snd (position (js_ex_nodes ! 0))) (snd (position (js_ex_nodes ! 1))))
                        (op_sub exact_ops (snd (position (js_ex_nodes ! 0))) (snd (position (js_ex_nodes ! 1)))))) = Fin 100"
  by (simp add: position_def exact_ops_def js_ex_nodes_def js_node_def js_sub_def js_mul_def
      sqrt_10000)

lemma exact_repulsion_pair:
  "repulsion exact_ops (position (js_ex_nodes ! 0)) (position (js_ex_nodes ! 1)) = (Fin (- 0.1), Fin 0)"
  by (simp add: repulsion_def or_else_def position_def Let_def exact_ops_def js_ex_nodes_def
      js_node_def js_sub_def js_mul_def js_div_def js_falsy_def sqrt_10000)

theorem tick_velocity_witness:
  "0 < length js_ex_nodes \<and> None \<noteq> Some (0::nat)
   \<and> velocity (simulateForces exact_ops (Fin 800) (Fin 600) None js_ex_links js_ex_nodes ! 0)
       = (Fin (- 0.09), Fin 0)
   \<and> op_falsy exact_ops = js_falsy \<and> op_max exact_ops = js_max \<and> op_lit exact_ops 1 = Fin 1
   \<and> js_le (Fin 1) (Fin 100)
   \<and> repulsion exact_ops (position (js_ex_nodes ! 0)) (position (js_ex_nodes ! 1)) = (Fin (- 0.1), Fin 0)
   \<and> spec_repulsion exact_ops (position (js_ex_nodes ! 0)) (position (js_ex_nodes ! 1)) = (Fin (- 0.1), Fin 0)"
proof -
  have h: "0 < length js_ex_nodes" "None \<noteq> Some (0::nat)" by (simp_all add: js_ex_nodes_def)
  have o: "op_falsy exact_ops = js_falsy" "op_max exact_ops = js_max" "op_lit exact_ops 1 = Fin 1"
    by (simp_all add: exact_ops_def)
  have l: "js_le (Fin 1) (Fin 100)" by simp
  note t = tick_velocity [OF h, of exact_ops "Fin 800" "Fin 600" js_ex_links]
  from t [THEN conjunct1]
  have v: "velocity (simulateForces exact_ops (Fin 800) (Fin 600) None js_ex_links js_ex_nodes ! 0)
       = (Fin (- 0.09), Fin 0)"
    unfolding exact_forces_pair Let_def by (simp add: exact_ops_def js_mul_def)
  from t [THEN conjunct2, THEN conjunct2, THEN conjunct2, rule_format,
      of "position (js_ex_nodes ! 0)" "position (js_ex_nodes ! 1)", unfolded exact_distance_pair]
    o l
  have "repulsion exact_ops (position (js_ex_nodes ! 0)) (position (js_ex_nodes ! 1))
      = spec_repulsion exact_ops (position (js_ex_nodes ! 0)) (position (js_ex_nodes ! 1))"
    by blast
  then have s: "spec_repulsion exact_ops (position (js_ex_nodes ! 0)) (position (js_ex_nodes ! 1))
      = (Fin (- 0.1), Fin 0)"
    unfolding exact_repulsion_pair by (rule sym)
  from h v o l exact_repulsion_pair s show ?thesis by blast
qed

section \<open>The camera transform\<close>

lemma zoom_about_Some:
  "zoom_about delta mx my tr = Some tr' \<longleftrightarrow>
     0.1 \<le> scale tr * delta \<and> scale tr * delta \<le> 10
     \<and> tr' = \<lparr>scale = scale tr * delta,
               translateX = translateX tr + (1 - delta) * (mx - translateX tr),
               translateY = translateY tr + (1 - delta) * (my - translateY tr)\<rparr>"
  by (auto simp: zoom_about_def Let_def)

lemma zoom_about_None:
  "zoom_about delta mx my tr = None \<longleftrightarrow> \<not> (0.1 \<le> scale tr * delta \<and> scale tr * delta \<le> 10)"
  by (auto simp: zoom_about_def Let_def)

lemma zoom_anchor:
  assumes "delta \<noteq> 0"
  shows "screenToGraph
           \<lparr>scale = scale tr * delta,
            translateX = translateX tr + (1 - delta) * (mx - translateX tr),
            translateY = translateY tr + (1 - delta) * (my - translateY tr)\<rparr> mx my
         = screenToGraph tr mx my"
proof -
  have "(mx - (translateX tr + (1 - delta) * (mx - translateX tr))) = delta * (mx - translateX tr)"
    "(my - (translateY tr + (1 - delta) * (my - translateY tr))) = delta * (my - translateY tr)"
    by (simp_all add: algebra_simps)
  then show ?thesis using assms by (simp add: screenToGraph_def)
qed

text \<open>
  Claim C5 as stated: a wheel event with \<open>deltaY \<ge> 0\<close> multiplies the scale by 0.9, which
  is not 1 / 1.1.
\<close>

theorem wheel_zoom_out_counterexample:
  "scale (transform (handleWheel 1 0 0 ex_state)) \<noteq> scale (transform ex_state) * (1 / 1.1)"
  by (simp add: handleWheel_def wheel_delta_def zoom_about_def ex_state_def Let_def)

text \<open>
  Claim C5, amended. For every wheel event on a mounted canvas, the multiplier is 1.1 for
  \<open>deltaY < 0\<close> and 0.9 otherwise. When the multiplied scale is in \<open>[0.1, 10]\<close> the event
  sets the scale to it and moves the translation so that the world point under the cursor
  stays where it is, and changes nothing but the transform; otherwise the event changes
  nothing.
\<close>

theorem wheel_zoom_step:
  assumes "canvas s = Some rect"
  shows "let tr = transform s;
             delta = (if deltaY < 0 then 1.1 else 0.9);
             mouseX = clientX - rect_left rect;
             mouseY = clientY - rect_top rect;
             s' = handleWheel deltaY clientX clientY s
         in if 0.1 \<le> scale tr * delta \<and> scale tr * delta \<le> 10
            then scale (transform s') = scale tr * delta
               \<and> screenToGraph (transform s') mouseX mouseY = screenToGraph tr mouseX mouseY
               \<and> s' = s\<lparr>transform := transform s'\<rparr>
            else s' = s"
proof -
  define delta :: real where "delta = (if deltaY < 0 then 1.1 else 0.9)"
  define mouseX where "mouseX = clientX - rect_left rect"
  define mouseY where "mouseY = clientY - rect_top rect"
  have nz: "delta \<noteq> 0" by (simp add: delta_def)
  have hw: "handleWheel deltaY clientX clientY s =
      (case zoom_about delta mouseX mouseY (transform s) of None \<Rightarrow> s
       | Some tr \<Rightarrow> s\<lparr>transform := tr\<rparr>)"
    using assms by (simp add: handleWheel_def wheel_delta_def delta_def mouseX_def mouseY_def Let_def)
  show ?thesis
  proof (cases "0.1 \<le> scale (transform s) * delta \<and> scale (transform s) * delta \<le> 10")
    case True
    then have "zoom_about delta mouseX mouseY (transform s) =
        Some \<lparr>scale = scale (transform s) * delta,
               translateX = translateX (transform s) + (1 - delta) * (mouseX - translateX (transform s)),
               translateY = translateY (transform s) + (1 - delta) * (mouseY - translateY (transform s))\<rparr>"
      by (simp add: zoom_about_Some)
    then show ?thesis
      unfolding Let_def delta_def [symmetric] mouseX_def [symmetric] mouseY_def [symmetric] hw
      using True zoom_anchor [OF nz, of "transform s" mouseX mouseY] by simp
  next
    case False
    then have "zoom_about delta mouseX mouseY (transform s) = None"
      by (simp add: zoom_about_None)
    then show ?thesis
      unfolding Let_def delta_def [symmetric] mouseX_def [symmetric] mouseY_def [symmetric] hw
      using False by auto
  qed
qed

theorem wheel_zoom_step_witness:
  "canvas ex_state = Some \<lparr>rect_left = 0, rect_top = 0, rect_width = 800, rect_height = 600\<rparr>
   \<and> scale (transform (handleWheel (- 1) 100 50 ex_state)) = 11 / 10
   \<and> screenToGraph (transform (handleWheel (- 1) 100 50 ex_state)) 100 50 = (100, 50)"
proof -
  have h: "canvas ex_state = Some \<lparr>rect_left = 0, rect_top = 0, rect_width = 800, rect_height = 600\<rparr>"
    by (simp add: ex_state_def)
  have tr: "transform ex_state = \<lparr>scale = 1, translateX = 0, translateY = 0\<rparr>"
    by (simp add: ex_state_def)
  from wheel_zoom_step [OF h, of "- 1" 100 50] show ?thesis
    unfolding Let_def tr using h by (simp add: screenToGraph_def)
qed






section \<open>Interaction\<close>

subsection \<open>Hover hit-testing\<close>

lemma find_hovered_node_None:
  "find_hovered_node tr x y ns = None \<longleftrightarrow>
     (\<forall>node \<in> set ns.
        \<not> sqrt ((node_x node - x) * (node_x node - x) + (node_y node - y) * (node_y node - y))
            < node_size node / 2 + 4)"
  by (induction ns) (simp_all add: Let_def)

lemma find_hovered_node_Some:
  "find_hovered_node tr x y ns = Some hn \<Longrightarrow>
     \<exists>i < length ns.
        sqrt ((node_x (ns ! i) - x) * (node_x (ns ! i) - x)
              + (node_y (ns ! i) - y) * (node_y (ns ! i) - y)) < node_size (ns ! i) / 2 + 4
        \<and> (\<forall>j < i. \<not> sqrt ((node_x (ns ! j) - x) * (node_x (ns ! j) - x)
              + (node_y (ns ! j) - y) * (node_y (ns ! j) - y)) < node_size (ns ! j) / 2 + 4)
        \<and> hn = \<lparr>tn_node = ns ! i,
                  tn_x = node_x (ns ! i) * scale tr + translateX tr,
                  tn_y = node_y (ns ! i) * scale tr + translateY tr\<rparr>"
proof (induction ns)
  case Nil
  then show ?case by simp
next
  case (Cons a ns)
  show ?case
  proof (cases "sqrt ((node_x a - x) * (node_x a - x) + (node_y a - y) * (node_y a - y))
                  < node_size a / 2 + 4")
    case True
    with Cons.prems have "hn = \<lparr>tn_node = a, tn_x = node_x a * scale tr + translateX tr,
                                 tn_y = node_y a * scale tr + translateY tr\<rparr>"
      by (simp add: Let_def)
    with True show ?thesis by (intro exI [of _ 0]) simp
  next
    case False
    with Cons.prems have "find_hovered_node tr x y ns = Some hn" by (simp add: Let_def)
    from Cons.IH [OF this] obtain i where i: "i < length ns"
      "sqrt ((node_x (ns ! i) - x) * (node_x (ns ! i) - x)
              + (node_y (ns ! i) - y) * (node_y (ns ! i) - y)) < node_size (ns ! i) / 2 + 4"
      "\<forall>j < i. \<not> sqrt ((node_x (ns ! j) - x) * (node_x (ns ! j) - x)
              + (node_y (ns ! j) - y) * (node_y (ns ! j) - y)) < node_size (ns ! j) / 2 + 4"
      "hn = \<lparr>tn_node = ns ! i,
                  tn_x = node_x (ns ! i) * scale tr + translateX tr,
                  tn_y = node_y (ns ! i) * scale tr + translateY tr\<rparr>"
      by blast
    have "\<forall>j < Suc i. \<not> sqrt ((node_x ((a # ns) ! j) - x) * (node_x ((a # ns) ! j) - x)
              + (node_y ((a # ns) ! j) - y) * (node_y ((a # ns) ! j) - y)) < node_size ((a # ns) ! j) / 2 + 4"
      using False i(3) by (auto simp: nth_Cons split: nat.splits)
    with i(1,2,4) show ?thesis by (intro exI [of _ "Suc i"]) simp
  qed
qed

lemma handleMouseMove_idle:
  assumes "canvas s = Some rect" and "\<not> isPanning s"
    and "\<not> (isDragging s \<and> dragNode s \<noteq> None)" and "processedData s = Some pd"
    and "screenToGraph (transform s) (clientX - rect_left rect) (clientY - rect_top rect) = (x, y)"
  shows "handleMouseMove clientX clientY s =
     (case find_hovered_node (transform s) x y (pd_nodes pd) of
        Some hoveredNode \<Rightarrow> s\<lparr>tooltipNode := Some hoveredNode, tooltipLink := None\<rparr>
      | None \<Rightarrow>
          (case find_hovered_link (transform s) x y (pd_nodes pd) (pd_links pd) of
             Some hoveredLink \<Rightarrow> s\<lparr>tooltipNode := None, tooltipLink := Some hoveredLink\<rparr>
           | None \<Rightarrow> s\<lparr>tooltipNode := None, tooltipLink := None\<rparr>))"
  using assms by (auto simp: handleMouseMove_def Let_def)

text \<open>
  Claim C8. For every pointer move in the idle state (not panning, not dragging): if the
  cursor's world point is inside the hit circle (radius size/2 + 4) of some node, the hover
  target is the first such node in array order and no link is reported, whatever the links
  are; a link is reported only when the point is inside no node's circle.
\<close>

theorem hover_prefers_node:
  assumes "canvas s = Some rect" and "\<not> isPanning s"
    and "\<not> (isDragging s \<and> dragNode s \<noteq> None)" and "processedData s = Some pd"
    and "screenToGraph (transform s) (clientX - rect_left rect) (clientY - rect_top rect) = (x, y)"
  shows "let hit = (\<lambda>node. sqrt ((node_x node - x) * (node_x node - x)
                               + (node_y node - y) * (node_y node - y)) < node_size node / 2 + 4);
             nodes = pd_nodes pd;
             s' = handleMouseMove clientX clientY s
         in ((\<exists>node \<in> set nodes. hit node) \<longrightarrow>
               tooltipLink s' = None
               \<and> (\<exists>i < length nodes. hit (nodes ! i) \<and> (\<forall>j < i. \<not> hit (nodes ! j))
                    \<and> tooltipNode s' =
                        Some \<lparr>tn_node = nodes ! i,
                              tn_x = node_x (nodes ! i) * scale (transform s) + translateX (transform s),
                              tn_y = node_y (nodes ! i) * scale (transform s) + translateY (transform s)\<rparr>))
          \<and> (tooltipLink s' \<noteq> None \<longrightarrow> tooltipNode s' = None \<and> (\<forall>node \<in> set nodes. \<not> hit node))"
proof -
  note mm = handleMouseMove_idle [OF assms]
  show ?thesis
  proof (cases "find_hovered_node (transform s) x y (pd_nodes pd)")
    case None
    then have no: "\<forall>node \<in> set (pd_nodes pd).
        \<not> sqrt ((node_x node - x) * (node_x node - x) + (node_y node - y) * (node_y node - y))
            < node_size node / 2 + 4"
      by (simp add: find_hovered_node_None)
    have "tooltipNode (handleMouseMove clientX clientY s) = None"
      unfolding mm None by (simp split: option.splits)
    with no show ?thesis unfolding Let_def by blast
  next
    case (Some hn)
    have tl: "tooltipLink (handleMouseMove clientX clientY s) = None"
      and tn: "tooltipNode (handleMouseMove clientX clientY s) = Some hn"
      unfolding mm Some by simp_all
    from find_hovered_node_Some [OF Some] tl tn show ?thesis
      unfolding Let_def by auto
  qed
qed


theorem hover_prefers_node_witness:
  "canvas ex_state = Some \<lparr>rect_left = 0, rect_top = 0, rect_width = 800, rect_height = 600\<rparr>
   \<and> \<not> isPanning ex_state
   \<and> \<not> (isDragging ex_state \<and> dragNode ex_state \<noteq> None)
   \<and> processedData ex_state = Some \<lparr>pd_nodes = ex_nodes, pd_links = ex_links\<rparr>
   \<and> screenToGraph (transform ex_state) (400 - 0) (300 - 0) = (400, 300)
   \<and> ex_node_A \<in> set ex_nodes
   \<and> sqrt ((node_x ex_node_A - 400) * (node_x ex_node_A - 400)
            + (node_y ex_node_A - 300) * (node_y ex_node_A - 300)) < node_size ex_node_A / 2 + 4
   \<and> segment_distance 400 300 ex_node_A ex_node_B < 5 / scale (transform ex_state)
   \<and> tooltipLink (handleMouseMove 400 300 ex_state) = None
   \<and> tooltipNode (handleMouseMove 400 300 ex_state)
       = Some \<lparr>tn_node = ex_node_A, tn_x = 400, tn_y = 300\<rparr>"
proof -
  have h: "canvas ex_state = Some \<lparr>rect_left = 0, rect_top = 0, rect_width = 800, rect_height = 600\<rparr>"
    "\<not> isPanning ex_state"
    "\<not> (isDragging ex_state \<and> dragNode ex_state \<noteq> None)"
    "processedData ex_state = Some \<lparr>pd_nodes = ex_nodes, pd_links = ex_links\<rparr>"
    "screenToGraph (transform ex_state)
       (400 - rect_left \<lparr>rect_left = 0, rect_top = 0, rect_width = 800, rect_height = 600\<rparr>)
       (300 - rect_top \<lparr>rect_left = 0, rect_top = 0, rect_width = 800, rect_height = 600\<rparr>) = (400, 300)"
    by (simp_all add: ex_state_def screenToGraph_def)
  have mem: "ex_node_A \<in> set ex_nodes" by (simp add: ex_nodes_def)
  have hit: "sqrt ((node_x ex_node_A - 400) * (node_x ex_node_A - 400)
            + (node_y ex_node_A - 300) * (node_y ex_node_A - 300)) < node_size ex_node_A / 2 + 4"
    by (simp add: ex_node_A_def)
  have seg: "segment_distance 400 300 ex_node_A ex_node_B < 5 / scale (transform ex_state)"
    by (simp add: segment_distance_def Let_def ex_node_A_def ex_node_B_def ex_state_def)
  from mem hit have ex: "\<exists>node \<in> set (pd_nodes \<lparr>pd_nodes = ex_nodes, pd_links = ex_links\<rparr>).
      sqrt ((node_x node - 400) * (node_x node - 400)
            + (node_y node - 300) * (node_y node - 300)) < node_size node / 2 + 4"
    by auto
  from hover_prefers_node [OF h, unfolded Let_def] ex
  have tl: "tooltipLink (handleMouseMove 400 300 ex_state) = None"
    by blast
  have fh: "find_hovered_node (transform ex_state) 400 300 ex_nodes
      = Some \<lparr>tn_node = ex_node_A, tn_x = 400, tn_y = 300\<rparr>"
    using hit by (simp add: ex_nodes_def Let_def) (simp add: ex_node_A_def ex_state_def)
  have tn: "tooltipNode (handleMouseMove 400 300 ex_state)
       = Some \<lparr>tn_node = ex_node_A, tn_x = 400, tn_y = 300\<rparr>"
    unfolding handleMouseMove_idle [OF h] by (simp add: fh)
  have sg: "screenToGraph (transform ex_state) (400 - 0) (300 - 0) = (400, 300)"
    using h(5) by simp
  show ?thesis using h(1-4) sg mem hit seg tl tn by blast
qed

subsection \<open>Entering the panning state\<close>

lemma isPanning_rebuild: "isPanning (rebuild s) = isPanning s"
  by (simp add: rebuild_def split: option.splits)

lemma isPanning_handleMouseMove: "isPanning (handleMouseMove cx cy s) = isPanning s"
  by (simp add: handleMouseMove_def Let_def split: option.splits prod.splits)

lemma isPanning_handleMouseDown:
  "isPanning (handleMouseDown buttons altKey cx cy s) \<longleftrightarrow>
     isPanning s \<or> ((buttons = 4 \<or> (buttons = 1 \<and> altKey)) \<and> canvas s \<noteq> None \<and> processedData s \<noteq> None)"
  by (auto simp: handleMouseDown_def Let_def split: option.splits prod.splits)

lemma isPanning_handleWheel: "isPanning (handleWheel dy cx cy s) = isPanning s"
  by (simp add: handleWheel_def Let_def split: option.splits)

lemma isPanning_handleKeyDown:
  "isPanning (handleKeyDown key s) \<longleftrightarrow> isPanning s \<or> key = ''Alt''"
  by (auto simp: handleKeyDown_def Let_def split: option.splits)

lemma isPanning_frame: "isPanning (frame s) = isPanning s"
  by (simp add: frame_def split: option.splits)

text \<open>
  Claim C9 as stated: a bare key-down of Alt, with no mouse button pressed, takes the idle
  state to panning.
\<close>

theorem alt_key_pans_counterexample:
  "\<not> isPanning ex_state \<and> \<not> isDragging ex_state \<and> isPanning (step (KeyDown ''Alt'') ex_state)"
  by (simp add: handleKeyDown_def ex_state_def Let_def)

text \<open>
  Claim C9, amended. From a state that is not panning, an event leads to panning exactly
  when it is a mouse press with \<^verbatim>\<open>buttons = 4\<close> (the middle button alone) or with
  \<^verbatim>\<open>buttons = 1\<close> and Alt held, on a mounted canvas with a built model, or a key-down of
  the Alt key. No mouse move, mouse release, wheel event, key release, key-down of another
  key, zoom or reset button, resize, new graph input or animation frame does.
\<close>

theorem panning_entered_by:
  assumes "\<not> isPanning s"
  shows "isPanning (step e s) \<longleftrightarrow>
           (\<exists>buttons altKey clientX clientY.
               e = MouseDown buttons altKey clientX clientY
               \<and> (buttons = 4 \<or> (buttons = 1 \<and> altKey))
               \<and> canvas s \<noteq> None \<and> processedData s \<noteq> None)
           \<or> e = KeyDown ''Alt''"
  using assms
  by (cases e)
    (simp_all add: isPanning_handleMouseMove isPanning_handleMouseDown isPanning_handleWheel
      isPanning_handleKeyDown isPanning_frame isPanning_rebuild handleMouseUp_def
      handleKeyUp_def zoomInClick_def zoomOutClick_def resetClick_def updateDimensions_def
      setGraphData_def)

theorem panning_entered_by_witness:
  "\<not> isPanning ex_state
   \<and> isPanning (step (MouseDown 4 False 10 10) ex_state)
   \<and> isPanning (step (MouseDown 1 True 10 10) ex_state)
   \<and> \<not> isPanning (step (MouseDown 1 False 10 10) ex_state)
   \<and> \<not> isPanning (step (KeyDown ''r'') ex_state)"
proof -
  have h: "\<not> isPanning ex_state" by (simp add: ex_state_def)
  have c: "canvas ex_state \<noteq> None" "processedData ex_state \<noteq> None"
    by (simp_all add: ex_state_def)
  have a: "isPanning (step (MouseDown 4 False 10 10) ex_state)"
    unfolding panning_entered_by [OF h] using c by auto
  have b: "isPanning (step (MouseDown 1 True 10 10) ex_state)"
    unfolding panning_entered_by [OF h] using c by auto
  have d: "\<not> isPanning (step (MouseDown 1 False 10 10) ex_state)"
    unfolding panning_entered_by [OF h] by auto
  have e: "\<not> isPanning (step (KeyDown ''r'') ex_state)"
    unfolding panning_entered_by [OF h] by auto
  show ?thesis using h a b d e by blast
qed

subsection \<open>Dragging a node\<close>

lemma frames_ticks:
  assumes "processedData s = Some pd" and "pd_nodes pd \<noteq> []"
  shows "(frame ^^ n) s =
     s\<lparr>processedData :=
         Some (pd\<lparr>pd_nodes :=
           ticks real_ops n (dim_width (dimensions s)) (dim_height (dimensions s)) (dragNode s)
             (pd_links pd) (pd_nodes pd)\<rparr>)\<rparr>"
proof (induction n)
  case 0
  then show ?case using assms(1) by simp
next
  case (Suc n)
  have "ticks real_ops n (dim_width (dimensions s)) (dim_height (dimensions s)) (dragNode s)
          (pd_links pd) (pd_nodes pd) \<noteq> []"
    using assms(2) length_ticks [of real_ops n "dim_width (dimensions s)" "dim_height (dimensions s)"
      "dragNode s" "pd_links pd" "pd_nodes pd"] by auto
  then have "frame (s\<lparr>processedData :=
         Some (pd\<lparr>pd_nodes :=
           ticks real_ops n (dim_width (dimensions s)) (dim_height (dimensions s)) (dragNode s)
             (pd_links pd) (pd_nodes pd)\<rparr>)\<rparr>) =
     s\<lparr>processedData :=
         Some (pd\<lparr>pd_nodes :=
           ticks real_ops (Suc n) (dim_width (dimensions s)) (dim_height (dimensions s)) (dragNode s)
             (pd_links pd) (pd_nodes pd)\<rparr>)\<rparr>"
    by (simp add: frame_def)
  moreover have "(frame ^^ Suc n) s = frame ((frame ^^ n) s)"
    by simp
  ultimately show ?case
    by (simp only: Suc.IH)
qed

lemma frames_pinned:
  assumes "dragNode s = Some d" and "processedData s = Some pd" and "d < length (pd_nodes pd)"
  shows "\<exists>pd'. processedData ((frame ^^ n) s) = Some pd' \<and> pd_nodes pd' ! d = pd_nodes pd ! d
            \<and> dragNode ((frame ^^ n) s) = Some d"
proof -
  have ne: "pd_nodes pd \<noteq> []" using assms(3) by auto
  show ?thesis
    unfolding frames_ticks [OF assms(2) ne] assms(1) by (simp add: ticks_pinned assms(1))
qed

lemma handleMouseMove_drag:
  assumes "canvas s = Some rect" and "\<not> isPanning s" and "isDragging s"
    and "dragNode s = Some d" and "processedData s = Some pd" and "d < length (pd_nodes pd)"
  shows "handleMouseMove clientX clientY s =
     s\<lparr>processedData :=
         Some (pd\<lparr>pd_nodes := (pd_nodes pd)
           [d := (pd_nodes pd ! d)
              \<lparr>node_x := (clientX - rect_left rect - translateX (transform s)) / scale (transform s),
               node_y := (clientY - rect_top rect - translateY (transform s)) / scale (transform s),
               node_vx := 0, node_vy := 0\<rparr>]\<rparr>)\<rparr>"
  using assms by (simp add: handleMouseMove_def screenToGraph_def Let_def)

lemma handleMouseMove_pan:
  assumes "canvas s = Some rect" and "isPanning s"
  shows "handleMouseMove clientX clientY s =
     s\<lparr>transform := (transform s)
          \<lparr>translateX := translateX (transform s) + (clientX - rect_left rect - pt_x (lastMousePos s)),
           translateY := translateY (transform s) + (clientY - rect_top rect - pt_y (lastMousePos s))\<rparr>,
       lastMousePos := \<lparr>pt_x = clientX - rect_left rect, pt_y = clientY - rect_top rect\<rparr>\<rparr>"
  using assms by (simp add: handleMouseMove_def Let_def)

lemma drag_then_alt_ex:
  "isDragging (step (KeyDown ''Alt'') (step (MouseDown 1 False 400 300) ex_state))"
  "isPanning (step (KeyDown ''Alt'') (step (MouseDown 1 False 400 300) ex_state))"
  "dragNode (step (KeyDown ''Alt'') (step (MouseDown 1 False 400 300) ex_state)) = Some 0"
  "canvas (step (KeyDown ''Alt'') (step (MouseDown 1 False 400 300) ex_state))
     = Some \<lparr>rect_left = 0, rect_top = 0, rect_width = 800, rect_height = 600\<rparr>"
  "transform (step (KeyDown ''Alt'') (step (MouseDown 1 False 400 300) ex_state))
     = \<lparr>scale = 1, translateX = 0, translateY = 0\<rparr>"
  "processedData (step (KeyDown ''Alt'') (step (MouseDown 1 False 400 300) ex_state))
     = Some \<lparr>pd_nodes = ex_nodes, pd_links = ex_links\<rparr>"
proof -
  have md: "step (MouseDown 1 False 400 300) ex_state = ex_state\<lparr>isDragging := True, dragNode := Some 0\<rparr>"
    by (simp add: handleMouseDown_def screenToGraph_def ex_state_def ex_nodes_def ex_node_A_def
        Let_def)
  show "isDragging (step (KeyDown ''Alt'') (step (MouseDown 1 False 400 300) ex_state))"
    "isPanning (step (KeyDown ''Alt'') (step (MouseDown 1 False 400 300) ex_state))"
    "dragNode (step (KeyDown ''Alt'') (step (MouseDown 1 False 400 300) ex_state)) = Some 0"
    "canvas (step (KeyDown ''Alt'') (step (MouseDown 1 False 400 300) ex_state))
       = Some \<lparr>rect_left = 0, rect_top = 0, rect_width = 800, rect_height = 600\<rparr>"
    "transform (step (KeyDown ''Alt'') (step (MouseDown 1 False 400 300) ex_state))
       = \<lparr>scale = 1, translateX = 0, translateY = 0\<rparr>"
    "processedData (step (KeyDown ''Alt'') (step (MouseDown 1 False 400 300) ex_state))
       = Some \<lparr>pd_nodes = ex_nodes, pd_links = ex_links\<rparr>"
    unfolding md by (simp_all add: handleKeyDown_def ex_state_def Let_def)
qed

text \<open>
  Claim C10 as stated, for each pointer move during a drag: after a press on node A and a
  key-down of Alt the controller is dragging and panning at once, and a pointer move to the
  screen point (-50, 700) pans the view and leaves node A at x = 400, not at the cursor's
  world coordinate -50.
\<close>

theorem drag_while_panning_counterexample:
  "isDragging (step (KeyDown ''Alt'') (step (MouseDown 1 False 400 300) ex_state))
   \<and> dragNode (step (KeyDown ''Alt'') (step (MouseDown 1 False 400 300) ex_state)) = Some 0
   \<and> node_x (pd_nodes (the (processedData
        (step (MouseMove (- 50) 700)
           (step (KeyDown ''Alt'') (step (MouseDown 1 False 400 300) ex_state))))) ! 0)
      \<noteq> fst (screenToGraph
            (transform (step (KeyDown ''Alt'') (step (MouseDown 1 False 400 300) ex_state)))
            (- 50) 700)"
proof -
  let ?s = "step (KeyDown ''Alt'') (step (MouseDown 1 False 400 300) ex_state)"
  have "processedData (handleMouseMove (- 50) 700 ?s) = processedData ?s"
    by (subst handleMouseMove_pan [OF drag_then_alt_ex(4,2)]) simp
  then have "processedData (step (MouseMove (- 50) 700) ?s) = processedData ?s"
    by (simp only: step.simps(1))
  then have "processedData (step (MouseMove (- 50) 700) ?s)
      = Some \<lparr>pd_nodes = ex_nodes, pd_links = ex_links\<rparr>"
    unfolding drag_then_alt_ex(6) .
  then have "node_x (pd_nodes (the (processedData (step (MouseMove (- 50) 700) ?s))) ! 0) = 400"
    by (simp add: ex_nodes_def ex_node_A_def)
  moreover have "fst (screenToGraph (transform ?s) (- 50) 700) = - 50"
    by (simp only: drag_then_alt_ex(5)) (simp add: screenToGraph_def)
  ultimately have "node_x (pd_nodes (the (processedData (step (MouseMove (- 50) 700) ?s))) ! 0)
      \<noteq> fst (screenToGraph (transform ?s) (- 50) 700)"
    by simp
  with drag_then_alt_ex(1,3) show ?thesis by blast
qed

text \<open>
  Claim C10, amended. While a node is being dragged and the controller is not panning,
  each pointer move sets that node's position to the cursor's world coordinate
  \<open>(screen - translate) / scale\<close> and its velocity to zero, and changes nothing else; no clamp
  is applied, and the animation frames that follow leave the node there for as long as it
  is the dragged node. While the controller is panning as well, a pointer move moves the
  translation of the view by the pointer's displacement and leaves the node where it is.
  (The witness drags node A to a point outside \<open>[20, width - 20] \<times> [20, height - 20]\<close>,
  where it stays.)
\<close>

theorem drag_sets_position:
  assumes "canvas s = Some rect" and "isDragging s"
    and "dragNode s = Some d" and "processedData s = Some pd" and "d < length (pd_nodes pd)"
  shows "let x = (clientX - rect_left rect - translateX (transform s)) / scale (transform s);
             y = (clientY - rect_top rect - translateY (transform s)) / scale (transform s);
             dragged = (pd_nodes pd ! d)\<lparr>node_x := x, node_y := y, node_vx := 0, node_vy := 0\<rparr>;
             s' = handleMouseMove clientX clientY s
         in (\<not> isPanning s \<longrightarrow>
               s' = s\<lparr>processedData := Some (pd\<lparr>pd_nodes := (pd_nodes pd)[d := dragged]\<rparr>)\<rparr>
               \<and> (\<forall>n. \<exists>pd'. processedData ((frame ^^ n) s') = Some pd'
                       \<and> pd_nodes pd' ! d = dragged
                       \<and> dragNode ((frame ^^ n) s') = Some d))
          \<and> (isPanning s \<longrightarrow>
               processedData s' = processedData s
               \<and> translateX (transform s')
                   = translateX (transform s) + (clientX - rect_left rect - pt_x (lastMousePos s))
               \<and> translateY (transform s')
                   = translateY (transform s) + (clientY - rect_top rect - pt_y (lastMousePos s)))"
proof -
  define dragged where "dragged = (pd_nodes pd ! d)
      \<lparr>node_x := (clientX - rect_left rect - translateX (transform s)) / scale (transform s),
       node_y := (clientY - rect_top rect - translateY (transform s)) / scale (transform s),
       node_vx := 0, node_vy := 0\<rparr>"
  define pd1 where "pd1 = pd\<lparr>pd_nodes := (pd_nodes pd)[d := dragged]\<rparr>"
  define s' where "s' = s\<lparr>processedData := Some pd1\<rparr>"
  have drag: "handleMouseMove clientX clientY s = s'
      \<and> (\<forall>n. \<exists>pd'. processedData ((frame ^^ n) s') = Some pd'
                       \<and> pd_nodes pd' ! d = dragged
                       \<and> dragNode ((frame ^^ n) s') = Some d)" if np: "\<not> isPanning s"
  proof -
    have mm: "handleMouseMove clientX clientY s = s'"
      unfolding s'_def pd1_def dragged_def
      by (rule handleMouseMove_drag [OF assms(1) np assms(2-5)])
    have p: "processedData s' = Some pd1" and l: "d < length (pd_nodes pd1)"
      and dn: "dragNode s' = Some d" and at: "pd_nodes pd1 ! d = dragged"
      using assms(3,5) by (auto simp: s'_def pd1_def)
    from frames_pinned [OF dn p l] at mm show ?thesis by simp
  qed
  have pan: "processedData (handleMouseMove clientX clientY s) = processedData s
               \<and> translateX (transform (handleMouseMove clientX clientY s))
                   = translateX (transform s) + (clientX - rect_left rect - pt_x (lastMousePos s))
               \<and> translateY (transform (handleMouseMove clientX clientY s))
                   = translateY (transform s) + (clientY - rect_top rect - pt_y (lastMousePos s))"
    if "isPanning s"
    unfolding handleMouseMove_pan [OF assms(1) that] by simp
  show ?thesis
    unfolding Let_def dragged_def [symmetric]
    using drag pan by (auto simp: s'_def pd1_def)
qed

theorem drag_sets_position_witness:
  "canvas ex_drag_state = Some \<lparr>rect_left = 0, rect_top = 0, rect_width = 800, rect_height = 600\<rparr>
   \<and> isDragging ex_drag_state \<and> dragNode ex_drag_state = Some 0
   \<and> processedData ex_drag_state = Some \<lparr>pd_nodes = ex_nodes, pd_links = ex_links\<rparr>
   \<and> 0 < length (pd_nodes \<lparr>pd_nodes = ex_nodes, pd_links = ex_links\<rparr>)
   \<and> \<not> isPanning ex_drag_state
   \<and> (\<exists>pd'. processedData ((frame ^^ 3) (handleMouseMove (- 50) 700 ex_drag_state)) = Some pd'
         \<and> node_x (pd_nodes pd' ! 0) = - 50 \<and> node_y (pd_nodes pd' ! 0) = 700
         \<and> node_vx (pd_nodes pd' ! 0) = 0 \<and> node_vy (pd_nodes pd' ! 0) = 0
         \<and> node_x (pd_nodes pd' ! 0) < 20
         \<and> dim_height (dimensions ex_drag_state) - 20 < node_y (pd_nodes pd' ! 0))
   \<and> isPanning (ex_drag_state\<lparr>isPanning := True\<rparr>)
   \<and> processedData (handleMouseMove (- 50) 700 (ex_drag_state\<lparr>isPanning := True\<rparr>))
       = Some \<lparr>pd_nodes = ex_nodes, pd_links = ex_links\<rparr>"
proof -
  have h: "canvas ex_drag_state = Some \<lparr>rect_left = 0, rect_top = 0, rect_width = 800, rect_height = 600\<rparr>"
    "isDragging ex_drag_state" "dragNode ex_drag_state = Some 0"
    "processedData ex_drag_state = Some \<lparr>pd_nodes = ex_nodes, pd_links = ex_links\<rparr>"
    "0 < length (pd_nodes \<lparr>pd_nodes = ex_nodes, pd_links = ex_links\<rparr>)"
    by (simp_all add: ex_drag_state_def ex_state_def ex_nodes_def)
  have np: "\<not> isPanning ex_drag_state" by (simp add: ex_drag_state_def ex_state_def)
  have tr: "transform ex_drag_state = \<lparr>scale = 1, translateX = 0, translateY = 0\<rparr>"
    and dh: "dim_height (dimensions ex_drag_state) = 600"
    by (simp_all add: ex_drag_state_def ex_state_def)
  from drag_sets_position [OF h, of "- 50" 700, unfolded Let_def, THEN conjunct1, rule_format,
      OF np, THEN conjunct2, rule_format, of 3]
  obtain pd' where pd': "processedData ((frame ^^ 3) (handleMouseMove (- 50) 700 ex_drag_state)) = Some pd'"
    "pd_nodes pd' ! 0 = (pd_nodes \<lparr>pd_nodes = ex_nodes, pd_links = ex_links\<rparr> ! 0)
       \<lparr>node_x := (- 50 - rect_left \<lparr>rect_left = 0, rect_top = 0, rect_width = 800, rect_height = 600\<rparr>
                    - translateX (transform ex_drag_state)) / scale (transform ex_drag_state),
        node_y := (700 - rect_top \<lparr>rect_left = 0, rect_top = 0, rect_width = 800, rect_height = 600\<rparr>
                    - translateY (transform ex_drag_state)) / scale (transform ex_drag_state),
        node_vx := 0, node_vy := 0\<rparr>"
    by blast
  from pd'(2) have "node_x (pd_nodes pd' ! 0) = - 50" "node_y (pd_nodes pd' ! 0) = 700"
    "node_vx (pd_nodes pd' ! 0) = 0" "node_vy (pd_nodes pd' ! 0) = 0"
    by (simp_all add: tr)
  with pd'(1) dh have a: "\<exists>pd'. processedData ((frame ^^ 3) (handleMouseMove (- 50) 700 ex_drag_state)) = Some pd'
         \<and> node_x (pd_nodes pd' ! 0) = - 50 \<and> node_y (pd_nodes pd' ! 0) = 700
         \<and> node_vx (pd_nodes pd' ! 0) = 0 \<and> node_vy (pd_nodes pd' ! 0) = 0
         \<and> node_x (pd_nodes pd' ! 0) < 20
         \<and> dim_height (dimensions ex_drag_state) - 20 < node_y (pd_nodes pd' ! 0)"
    by auto
  have h2: "canvas (ex_drag_state\<lparr>isPanning := True\<rparr>)
        = Some \<lparr>rect_left = 0, rect_top = 0, rect_width = 800, rect_height = 600\<rparr>"
    "isDragging (ex_drag_state\<lparr>isPanning := True\<rparr>)"
    "dragNode (ex_drag_state\<lparr>isPanning := True\<rparr>) = Some 0"
    "processedData (ex_drag_state\<lparr>isPanning := True\<rparr>) = Some \<lparr>pd_nodes = ex_nodes, pd_links = ex_links\<rparr>"
    using h by simp_all
  have p: "isPanning (ex_drag_state\<lparr>isPanning := True\<rparr>)" by simp
  from drag_sets_position [OF h2 h(5), of "- 50" 700, unfolded Let_def, THEN conjunct2, rule_format,
      OF p, THEN conjunct1]
  have b: "processedData (handleMouseMove (- 50) 700 (ex_drag_state\<lparr>isPanning := True\<rparr>))
       = Some \<lparr>pd_nodes = ex_nodes, pd_links = ex_links\<rparr>"
    using h2(4) by simp
  from h np a p b show ?thesis by blast
qed

section \<open>Resizing the viewport\<close>

lemma nth_build_nodes:
  "i < length gns \<Longrightarrow> build_nodes rnd w h gns ! i = place_node rnd w h (i, gns ! i)"
  by (simp add: build_nodes_def nth_enumerate_eq)

lemma place_node_fields:
  "node_x (place_node rnd w h (i, n)) = w / 2 + (rnd (2 * i) - 0.5) * 200"
  "node_y (place_node rnd w h (i, n)) = h / 2 + (rnd (2 * i + 1) - 0.5) * 200"
  "node_vx (place_node rnd w h (i, n)) = 0"
  "node_vy (place_node rnd w h (i, n)) = 0"
  by (simp_all add: place_node_def GraphNode.extend_def ProcessedNode.fields_def)

lemma updateDimensions_Some:
  assumes "graphData s = Some gd"
  shows "updateDimensions w h s =
     s\<lparr>dimensions := \<lparr>dim_width = w, dim_height = max 500 h\<rparr>,
       processedData := Some (build_model (random s) w (max 500 h) gd),
       random := (\<lambda>k. random s (k + 2 * length (gd_nodes gd)))\<rparr>"
  using assms by (simp add: updateDimensions_def rebuild_def)

lemma resize_ex:
  "node_x (pd_nodes (the (processedData (step (Resize 1000 600) ex_state))) ! 0) = 500"
proof -
  have g: "graphData ex_state = Some ex_graph" by (simp add: ex_state_def)
  have r: "random ex_state = (\<lambda>_. 1 / 2)" by (simp add: ex_state_def)
  have l: "0 < length (gd_nodes ex_graph)" by (simp add: ex_graph_def)
  show ?thesis
    by (simp add: updateDimensions_Some [OF g] build_model_def Let_def nth_build_nodes [OF l]
        place_node_fields r)
qed

text \<open>
  Claim C4 as stated: a resize of the viewport from 800 by 600 to 1000 by 600 moves the
  existing node A from x = 400 to x = 500.
\<close>

theorem resize_moves_node_counterexample:
  "node_x (pd_nodes (the (processedData (step (Resize 1000 600) ex_state))) ! 0)
     \<noteq> node_x (pd_nodes (the (processedData ex_state)) ! 0)"
  unfolding resize_ex by (simp add: ex_state_def ex_nodes_def ex_node_A_def)

text \<open>
  Claim C4, amended. A resize of the viewport to a container of width \<open>w\<close> and height \<open>h\<close>
  sets the dimensions to \<open>w\<close> by \<open>max 500 h\<close> and rebuilds the model from the graph input:
  every node, whatever its position was, is placed afresh at the new centre plus
  \<open>(r - 0.5) \<times> 200\<close> for a new random number \<open>r\<close> on each axis, with zero velocity. The
  transform, the drag and panning flags are not touched.
\<close>

theorem resize_rebuilds_model:
  assumes "graphData s = Some gd" and "i < length (gd_nodes gd)"
  shows "let s' = step (Resize w h) s in
           dimensions s' = \<lparr>dim_width = w, dim_height = max 500 h\<rparr>
         \<and> processedData s' = Some (build_model (random s) w (max 500 h) gd)
         \<and> (\<exists>pd'. processedData s' = Some pd'
               \<and> length (pd_nodes pd') = length (gd_nodes gd)
               \<and> node_id (pd_nodes pd' ! i) = node_id (gd_nodes gd ! i)
               \<and> node_x (pd_nodes pd' ! i) = w / 2 + (random s (2 * i) - 0.5) * 200
               \<and> node_y (pd_nodes pd' ! i) = max 500 h / 2 + (random s (2 * i + 1) - 0.5) * 200
               \<and> node_vx (pd_nodes pd' ! i) = 0 \<and> node_vy (pd_nodes pd' ! i) = 0)
         \<and> transform s' = transform s \<and> isDragging s' = isDragging s
         \<and> dragNode s' = dragNode s \<and> isPanning s' = isPanning s"
proof -
  have n: "pd_nodes (build_model (random s) w (max 500 h) gd)
             = build_nodes (random s) w (max 500 h) (gd_nodes gd)"
    by (simp add: build_model_def Let_def)
  show ?thesis
    unfolding Let_def step.simps updateDimensions_Some [OF assms(1)]
    by (simp add: n length_build_nodes nth_build_nodes [OF assms(2)] place_node_fields
        node_id_place_node)
qed

theorem resize_rebuilds_model_witness:
  "graphData ex_state = Some ex_graph \<and> 1 < length (gd_nodes ex_graph)
   \<and> (\<exists>pd'. processedData (step (Resize 1000 600) ex_state) = Some pd'
         \<and> node_x (pd_nodes pd' ! 1) = 500 \<and> node_y (pd_nodes pd' ! 1) = 300
         \<and> node_vx (pd_nodes pd' ! 1) = 0 \<and> node_vy (pd_nodes pd' ! 1) = 0)
   \<and> node_x (pd_nodes (the (processedData ex_state)) ! 1) = 500
   \<and> dimensions (step (Resize 1000 600) ex_state) = \<lparr>dim_width = 1000, dim_height = 600\<rparr>"
proof -
  have h: "graphData ex_state = Some ex_graph" "1 < length (gd_nodes ex_graph)"
    by (simp_all add: ex_state_def ex_graph_def)
  have r: "random ex_state = (\<lambda>_. 1 / 2)" by (simp add: ex_state_def)
  have b: "node_x (pd_nodes (the (processedData ex_state)) ! 1) = 500"
    by (simp add: ex_state_def ex_nodes_def ex_node_B_def)
  have m: "max 500 (600::real) = 600" by simp
  note t = resize_rebuilds_model [OF h, of 1000 600, unfolded Let_def r m]
  from t have d: "dimensions (step (Resize 1000 600) ex_state) = \<lparr>dim_width = 1000, dim_height = 600\<rparr>"
    by blast
  from t obtain pd' where "processedData (step (Resize 1000 600) ex_state) = Some pd'"
    "node_x (pd_nodes pd' ! 1) = 1000 / 2 + (1 / 2 - 0.5) * 200"
    "node_y (pd_nodes pd' ! 1) = 600 / 2 + (1 / 2 - 0.5) * 200"
    "node_vx (pd_nodes pd' ! 1) = 0" "node_vy (pd_nodes pd' ! 1) = 0"
    by blast
  then have "\<exists>pd'. processedData (step (Resize 1000 600) ex_state) = Some pd'
         \<and> node_x (pd_nodes pd' ! 1) = 500 \<and> node_y (pd_nodes pd' ! 1) = 300
         \<and> node_vx (pd_nodes pd' ! 1) = 0 \<and> node_vy (pd_nodes pd' ! 1) = 0"
    by simp
  with h b d show ?thesis by blast
qed

section \<open>The pinned node between ticks\<close>

lemma processedData_handleMouseMove:
  assumes "\<not> (isDragging s \<and> \<not> isPanning s \<and> canvas s \<noteq> None)"
  shows "processedData (handleMouseMove cx cy s) = processedData s"
  using assms by (auto simp: handleMouseMove_def Let_def split: option.splits prod.splits)

lemma processedData_handleMouseDown:
  "processedData (handleMouseDown buttons altKey cx cy s) = processedData s"
  by (simp add: handleMouseDown_def Let_def split: option.splits prod.splits)

lemma processedData_handleWheel: "processedData (handleWheel dy cx cy s) = processedData s"
  by (simp add: handleWheel_def Let_def split: option.splits)

lemma processedData_handleKeyDown: "processedData (handleKeyDown key s) = processedData s"
  by (simp add: handleKeyDown_def Let_def split: option.splits)

lemma processedData_rebuild_None:
  "graphData s = None \<Longrightarrow> processedData (rebuild s) = processedData s"
  by (simp add: rebuild_def)

lemma step_Frame: "step Frame = frame"
  by (rule ext) simp

lemma resize_drag_ex:
  "node_x (pd_nodes (the (processedData (step (Resize 1000 600) ex_drag_state))) ! 0) = 500"
  "dragNode (step (Resize 1000 600) ex_drag_state) = Some 0"
proof -
  have g: "graphData ex_drag_state = Some ex_graph" by (simp add: ex_drag_state_def ex_state_def)
  have r: "random ex_drag_state = (\<lambda>_. 1 / 2)" by (simp add: ex_drag_state_def ex_state_def)
  have l: "0 < length (gd_nodes ex_graph)" by (simp add: ex_graph_def)
  show "node_x (pd_nodes (the (processedData (step (Resize 1000 600) ex_drag_state))) ! 0) = 500"
    by (simp add: updateDimensions_Some [OF g] build_model_def Let_def nth_build_nodes [OF l]
        place_node_fields r)
  show "dragNode (step (Resize 1000 600) ex_drag_state) = Some 0"
    by (simp add: updateDimensions_Some [OF g]) (simp add: ex_drag_state_def)
qed

text \<open>
  Claim C7 as stated, that the position of a pinned node changes only through drag updates:
  a resize of the viewport while node A is the dragged node rebuilds the model and moves
  node A from x = 400 to x = 500, and node A is still the dragged node.
\<close>

theorem pinned_node_moved_counterexample:
  "dragNode ex_drag_state = Some 0
   \<and> dragNode (step (Resize 1000 600) ex_drag_state) = Some 0
   \<and> node_x (pd_nodes (the (processedData (step (Resize 1000 600) ex_drag_state))) ! 0)
       \<noteq> node_x (pd_nodes (the (processedData ex_drag_state)) ! 0)"
  unfolding resize_drag_ex
  by (simp add: ex_drag_state_def ex_state_def ex_nodes_def ex_node_A_def)

text \<open>
  Claim C7, amended. For every pinned (dragged) node index and every number of simulation
  ticks executed while it stays pinned, in every arithmetic, the ticks leave that node's
  position, velocity and other fields unchanged. Of all the events of the component, only a
  pointer move while dragging and not panning (the drag update), a resize of the viewport
  with graph data present and the arrival of new graph data (the two rebuilds of the model)
  can change the node at the pinned index; every other event leaves it as it is.
\<close>

theorem pinned_node_changed_only_by:
  assumes "dragNode s = Some d" and "processedData s = Some pd" and "d < length (pd_nodes pd)"
  shows "ticks ops n width height (Some d) links nodes ! d = nodes ! d
       \<and> length (ticks ops n width height (Some d) links nodes) = length nodes
       \<and> (\<forall>k. \<exists>pd'. processedData ((step Frame ^^ k) s) = Some pd'
               \<and> pd_nodes pd' ! d = pd_nodes pd ! d
               \<and> dragNode ((step Frame ^^ k) s) = Some d)
       \<and> (\<forall>e. (\<exists>pd'. processedData (step e s) = Some pd' \<and> pd_nodes pd' ! d = pd_nodes pd ! d)
             \<or> (\<exists>cx cy. e = MouseMove cx cy \<and> isDragging s \<and> \<not> isPanning s \<and> canvas s \<noteq> None)
             \<or> (\<exists>w h. e = Resize w h \<and> graphData s \<noteq> None)
             \<or> (\<exists>g. e = NewGraphData g \<and> g \<noteq> None))"
proof -
  have frames: "\<forall>k. \<exists>pd'. processedData ((step Frame ^^ k) s) = Some pd'
               \<and> pd_nodes pd' ! d = pd_nodes pd ! d
               \<and> dragNode ((step Frame ^^ k) s) = Some d"
    unfolding step_Frame using frames_pinned [OF assms] by blast
  have events: "(\<exists>pd'. processedData (step e s) = Some pd' \<and> pd_nodes pd' ! d = pd_nodes pd ! d)
             \<or> (\<exists>cx cy. e = MouseMove cx cy \<and> isDragging s \<and> \<not> isPanning s \<and> canvas s \<noteq> None)
             \<or> (\<exists>w h. e = Resize w h \<and> graphData s \<noteq> None)
             \<or> (\<exists>g. e = NewGraphData g \<and> g \<noteq> None)" for e
  proof (cases e)
    case (MouseMove cx cy)
    then show ?thesis
      using processedData_handleMouseMove [of s cx cy] assms(2) by auto
  next
    case (MouseDown b a cx cy)
    then show ?thesis by (simp add: processedData_handleMouseDown assms(2))
  next
    case MouseUp
    then show ?thesis by (simp add: handleMouseUp_def assms(2))
  next
    case (Wheel dy cx cy)
    then show ?thesis by (simp add: processedData_handleWheel assms(2))
  next
    case (KeyDown key)
    then show ?thesis by (simp add: processedData_handleKeyDown assms(2))
  next
    case (KeyUp key)
    then show ?thesis by (simp add: handleKeyUp_def assms(2))
  next
    case ZoomInClick
    then show ?thesis by (simp add: zoomInClick_def assms(2))
  next
    case ZoomOutClick
    then show ?thesis by (simp add: zoomOutClick_def assms(2))
  next
    case ResetClick
    then show ?thesis by (simp add: resetClick_def assms(2))
  next
    case (Resize w h)
    then show ?thesis
      by (cases "graphData s") (simp_all add: updateDimensions_def processedData_rebuild_None assms(2))
  next
    case (NewGraphData g)
    then show ?thesis
      by (cases g) (simp_all add: setGraphData_def processedData_rebuild_None assms(2))
  next
    case Frame
    from frames_pinned [OF assms, of 1] show ?thesis unfolding Frame by auto
  qed
  show ?thesis
    using frames events by (simp add: ticks_pinned length_ticks)
qed

theorem pinned_node_changed_only_by_witness:
  "dragNode ex_drag_state = Some 0
   \<and> processedData ex_drag_state = Some \<lparr>pd_nodes = ex_nodes, pd_links = ex_links\<rparr>
   \<and> 0 < length (pd_nodes \<lparr>pd_nodes = ex_nodes, pd_links = ex_links\<rparr>)
   \<and> ticks exact_ops 5 (Fin 800) (Fin 600) (Some 0) js_ex_links js_ex_nodes ! 0 = js_node ''A'' 400 300
   \<and> (\<exists>pd'. processedData ((step Frame ^^ 3) ex_drag_state) = Some pd' \<and> pd_nodes pd' ! 0 = ex_node_A)
   \<and> (\<exists>pd'. processedData (step (KeyDown ''Alt'') ex_drag_state) = Some pd' \<and> pd_nodes pd' ! 0 = ex_node_A)"
proof -
  have h: "dragNode ex_drag_state = Some 0"
    "processedData ex_drag_state = Some \<lparr>pd_nodes = ex_nodes, pd_links = ex_links\<rparr>"
    "0 < length (pd_nodes \<lparr>pd_nodes = ex_nodes, pd_links = ex_links\<rparr>)"
    by (simp_all add: ex_drag_state_def ex_state_def ex_nodes_def)
  have n0: "pd_nodes \<lparr>pd_nodes = ex_nodes, pd_links = ex_links\<rparr> ! 0 = ex_node_A"
    by (simp add: ex_nodes_def)
  note t = pinned_node_changed_only_by [OF h, of exact_ops 5 "Fin 800" "Fin 600" js_ex_links js_ex_nodes]
  from t [THEN conjunct1]
  have a: "ticks exact_ops 5 (Fin 800) (Fin 600) (Some 0) js_ex_links js_ex_nodes ! 0 = js_node ''A'' 400 300"
    by (simp add: js_ex_nodes_def)
  from t [THEN conjunct2, THEN conjunct2, THEN conjunct1, rule_format, of 3]
  have b: "\<exists>pd'. processedData ((step Frame ^^ 3) ex_drag_state) = Some pd' \<and> pd_nodes pd' ! 0 = ex_node_A"
    unfolding n0 by blast
  from t [THEN conjunct2, THEN conjunct2, THEN conjunct2, rule_format, of "KeyDown ''Alt''"]
  have c: "\<exists>pd'. processedData (step (KeyDown ''Alt'') ex_drag_state) = Some pd' \<and> pd_nodes pd' ! 0 = ex_node_A"
    unfolding n0 by auto
  from h a b c show ?thesis by blast
qed

end
